theory Spec2Isabelle
  imports Main "HOL-Library.Product_Lexorder"
begin

section \<open>Automata\<close>

text \<open>
  States and symbols are non-negative integers. A transition is the triple
  (source, symbol, target); \<open>src\<close>, \<open>symb\<close> and \<open>tgt\<close> read its fields as the
  source reads \<^verbatim>\<open>trans.src\<close>, \<^verbatim>\<open>trans.symb\<close> and \<^verbatim>\<open>trans.tgt\<close>.
\<close>

type_synonym state = nat
type_synonym symbol = nat
type_synonym trans = "state \<times> symbol \<times> state"

definition src :: "trans \<Rightarrow> state" where
  "src t = fst t"

definition symb :: "trans \<Rightarrow> symbol" where
  "symb t = fst (snd t)"

definition tgt :: "trans \<Rightarrow> state" where
  "tgt t = snd (snd t)"

text \<open>
  Modelled from the spec: the class \<^verbatim>\<open>Mata::Nfa::Nfa\<close> is declared in
  \<^verbatim>\<open>mata/nfa.hh\<close>, which is not among the sources. The spec gives the tuple
  (n, I, F, delta). The sets are kept as lists that the operations below keep sorted
  and free of duplicates, so that iterating over them is deterministic.
\<close>

record nfa =
  num_of_states :: nat
  initialstates :: "state list"
  finalstates :: "state list"
  transitions :: "trans list"

datatype error =
  InvalidState | OutOfRange | DivisionByZero | IteratorInvalidated | Aborted | NullPointer
  | ParseFailure

section \<open>Noodlification (noodlify.cc)\<close>

subsection \<open>The operations of the automata library that noodlify.cc calls\<close>

text \<open>
  \<^verbatim>\<open>noodlify.cc\<close> calls operations of \<^verbatim>\<open>mata/nfa.hh\<close> and
  \<^verbatim>\<open>mata/noodlify.hh\<close> whose code is not among the sources: \<^verbatim>\<open>trim\<close>,
  \<^verbatim>\<open>is_lang_empty\<close>, \<^verbatim>\<open>unify_initial\<close>, \<^verbatim>\<open>unify_final\<close>, \<^verbatim>\<open>reduce\<close>,
  \<^verbatim>\<open>revert\<close>, the two compositions over epsilon, the enumerated alphabet and the
  class \<^verbatim>\<open>Segmentation\<close>. They are parameters of the model: every function of
  \<^verbatim>\<open>noodlify.cc\<close> takes the library as its first argument, and the general theorems
  hold for every library. An alphabet is the list of its symbols; the epsilon depths
  are the entries (depth, transitions) of the map the source iterates over.
\<close>

record nfa_lib =
  trim :: "nfa \<Rightarrow> nfa"
  is_lang_empty :: "nfa \<Rightarrow> bool"
  unify_initial :: "nfa \<Rightarrow> nfa"
  unify_final :: "nfa \<Rightarrow> nfa"
  reduce :: "nfa \<Rightarrow> nfa"
  revert :: "nfa \<Rightarrow> nfa"
  concatenate_over_epsilon :: "nfa \<Rightarrow> nfa \<Rightarrow> symbol \<Rightarrow> nfa"
  intersection_over_epsilon :: "nfa \<Rightarrow> nfa \<Rightarrow> symbol \<Rightarrow> nfa"
  from_nfas :: "nfa list \<Rightarrow> symbol list"
  add_symbols_from :: "symbol list \<Rightarrow> nfa \<Rightarrow> symbol list"
  get_next_value :: "symbol list \<Rightarrow> symbol"
  get_untrimmed_segments :: "nfa \<Rightarrow> symbol \<Rightarrow> nfa list"
  get_epsilon_depths :: "nfa \<Rightarrow> symbol \<Rightarrow> (nat \<times> trans list) list"

subsection \<open>get_num_of_permutations\<close>

text \<open>
  The product of the sizes of all entries, in \<^verbatim>\<open>size_t\<close> arithmetic: every
  multiplication wraps modulo \<open>2 ^ 64\<close>.
\<close>

definition get_num_of_permutations :: "(nat \<times> trans list) list \<Rightarrow> nat" where
  "get_num_of_permutations epsilon_depths =
     foldl (\<lambda>num_of_permutations segment.
              (num_of_permutations * length (snd segment)) mod 2 ^ 64)
           1 epsilon_depths"

subsection \<open>noodlify\<close>

text \<open>
  The map \<^verbatim>\<open>segments_one_initial_final\<close>, keyed by a pair of states. The loop over
  the segments treats the first segment, the last one and those in between
  differently; \<open>is_first\<close> says whether the iterator is at \<^verbatim>\<open>segments.begin()\<close>.
\<close>

type_synonym segment_map = "state \<times> state \<rightharpoonup> nfa"

fun segments_one_initial_final ::
  "nfa_lib \<Rightarrow> bool \<Rightarrow> state \<Rightarrow> bool \<Rightarrow> nfa list \<Rightarrow> segment_map \<Rightarrow> segment_map" where
  "segments_one_initial_final lib include_empty unused_state is_first [] m = m"
| "segments_one_initial_final lib include_empty unused_state is_first (seg # rest) m =
     segments_one_initial_final lib include_empty unused_state False rest
       (if is_first then
          foldl (\<lambda>m final_state.
                   let segment_one_final = trim lib (seg\<lparr>finalstates := [final_state]\<rparr>)
                   in if 0 < num_of_states segment_one_final \<or> include_empty
                      then m((unused_state, final_state) \<mapsto> segment_one_final) else m)
                m (finalstates seg)
        else if rest = [] then
          foldl (\<lambda>m init_state.
                   let segment_one_init = trim lib (seg\<lparr>initialstates := [init_state]\<rparr>)
                   in if 0 < num_of_states segment_one_init \<or> include_empty
                      then m((init_state, unused_state) \<mapsto> segment_one_init) else m)
                m (initialstates seg)
        else
          foldl (\<lambda>m init_state.
                   foldl (\<lambda>m final_state.
                            let segment_one_init_final =
                                  trim lib (seg\<lparr>initialstates := [init_state],
                                                finalstates := [final_state]\<rparr>)
                            in if 0 < num_of_states segment_one_init_final \<or> include_empty
                               then m((init_state, final_state) \<mapsto> segment_one_init_final)
                               else m)
                         m (finalstates seg))
                m (initialstates seg))"

text \<open>
  The inner loop over the depths: \<open>temp\<close> is decoded digit by digit. The call
  \<^verbatim>\<open>epsilon_depths.at(depth)\<close> throws when the map has no entry for the depth, and
  the remainder by an empty entry's size is a division by zero.
\<close>

fun epsilon_noodle :: "(nat \<times> trans list) list \<Rightarrow> nat list \<Rightarrow> nat \<Rightarrow> error + trans list" where
  "epsilon_noodle epsilon_depths [] temp = Inr []"
| "epsilon_noodle epsilon_depths (depth # depths) temp =
     (case map_of epsilon_depths depth of
        None \<Rightarrow> Inl OutOfRange
      | Some trans_at_cur_depth \<Rightarrow>
          let num_of_trans_at_cur_depth = length trans_at_cur_depth in
          if num_of_trans_at_cur_depth = 0 then Inl DivisionByZero
          else
            let computed_index = temp mod num_of_trans_at_cur_depth in
            (case epsilon_noodle epsilon_depths depths (temp div num_of_trans_at_cur_depth) of
               Inl e \<Rightarrow> Inl e
             | Inr noodle_rest \<Rightarrow> Inr (trans_at_cur_depth ! computed_index # noodle_rest)))"

text \<open>
  The segments between two consecutive epsilon transitions of the noodle; \<open>None\<close>
  when one of them is not in the map (\<^verbatim>\<open>all_segments_exist = false\<close>).
\<close>

fun segments_between :: "segment_map \<Rightarrow> trans list \<Rightarrow> nfa list option" where
  "segments_between m (e # next_e # es) =
     (case m (tgt e, src next_e) of
        None \<Rightarrow> None
      | Some segment \<Rightarrow>
          (case segments_between m (next_e # es) of
             None \<Rightarrow> None
           | Some segs \<Rightarrow> Some (segment # segs)))"
| "segments_between m es = Some []"

text \<open>
  The body of the loop over the indices, after the epsilon noodle is computed: the
  noodle of the index, or \<open>None\<close> where the source says \<^verbatim>\<open>continue\<close>. Reading
  \<^verbatim>\<open>epsilon_noodle[0]\<close> of an empty vector is out of range.
\<close>

definition noodle_of :: "segment_map \<Rightarrow> state \<Rightarrow> trans list \<Rightarrow> error + nfa list option" where
  "noodle_of m unused_state es =
     (case es of
        [] \<Rightarrow> Inl OutOfRange
      | e0 # _ \<Rightarrow>
          (case m (unused_state, src e0) of
             None \<Rightarrow> Inr None
           | Some first_segment \<Rightarrow>
               (case segments_between m es of
                  None \<Rightarrow> Inr None
                | Some segs \<Rightarrow>
                    (case m (tgt (last es), unused_state) of
                       None \<Rightarrow> Inr None
                     | Some last_segment \<Rightarrow>
                         Inr (Some (first_segment # segs @ [last_segment]))))))"

fun noodles_loop ::
  "segment_map \<Rightarrow> state \<Rightarrow> (nat \<times> trans list) list \<Rightarrow> nat list \<Rightarrow> error + nfa list list" where
  "noodles_loop m unused_state epsilon_depths [] = Inr []"
| "noodles_loop m unused_state epsilon_depths (index # indices) =
     (case epsilon_noodle epsilon_depths [0..<length epsilon_depths] index of
        Inl e \<Rightarrow> Inl e
      | Inr es \<Rightarrow>
          (case noodle_of m unused_state es of
             Inl e \<Rightarrow> Inl e
           | Inr noodle \<Rightarrow>
               (case noodles_loop m unused_state epsilon_depths indices of
                  Inl e \<Rightarrow> Inl e
                | Inr noodles \<Rightarrow>
                    Inr (case noodle of None \<Rightarrow> noodles | Some n \<Rightarrow> n # noodles))))"

definition noodlify :: "nfa_lib \<Rightarrow> nfa \<Rightarrow> symbol \<Rightarrow> bool \<Rightarrow> error + nfa list list" where
  "noodlify lib aut epsilon include_empty =
     (let segments = get_untrimmed_segments lib aut epsilon in
      if length segments = 1 then
        (let segment = trim lib (segments ! 0) in
         if 0 < num_of_states segment \<or> include_empty then Inr [[segment]] else Inr [])
      else
        (let unused_state = num_of_states aut;
             m = segments_one_initial_final lib include_empty unused_state True segments
                   Map.empty;
             epsilon_depths = get_epsilon_depths lib aut epsilon;
             num_of_permutations = get_num_of_permutations epsilon_depths
         in noodles_loop m unused_state epsilon_depths [0..<num_of_permutations]))"

subsection \<open>noodlify_for_equation\<close>

text \<open>
  Both overloads take the left automata by reference (a sequence of reference
  wrappers, or of pointers) and call the mutating \<^verbatim>\<open>unify_initial\<close> and
  \<^verbatim>\<open>unify_final\<close> on them, and the right automaton by const reference. The model
  has a heap from addresses to automata; the left side is a list of addresses, the
  right side an address, and a call returns the heap it leaves together with its
  result.
\<close>

type_synonym heap = "nat \<Rightarrow> nfa"

fun unify_all :: "nfa_lib \<Rightarrow> heap \<Rightarrow> nat list \<Rightarrow> heap" where
  "unify_all lib h [] = h"
| "unify_all lib h (a # as) =
     unify_all lib (h(a := unify_final lib (unify_initial lib (h a)))) as"

definition equation_epsilon :: "nfa_lib \<Rightarrow> nfa list \<Rightarrow> nfa \<Rightarrow> symbol" where
  "equation_epsilon lib lefts right =
     get_next_value lib (add_symbols_from lib (from_nfas lib lefts) right)"

definition concatenated_left_side :: "nfa_lib \<Rightarrow> nfa list \<Rightarrow> symbol \<Rightarrow> nfa" where
  "concatenated_left_side lib lefts epsilon =
     foldl (\<lambda>c next_left. concatenate_over_epsilon lib c next_left epsilon)
           (hd lefts) (tl lefts)"

definition product_pres_eps_trans :: "nfa_lib \<Rightarrow> nfa list \<Rightarrow> nfa \<Rightarrow> nfa" where
  "product_pres_eps_trans lib lefts right =
     (let epsilon = equation_epsilon lib lefts right in
      trim lib (intersection_over_epsilon lib
                  (concatenated_left_side lib lefts epsilon) right epsilon))"

text \<open>The overload for \<^verbatim>\<open>AutRefSequence\<close>.\<close>

definition noodlify_for_equation ::
  "nfa_lib \<Rightarrow> heap \<Rightarrow> nat list \<Rightarrow> nat \<Rightarrow> bool \<Rightarrow> (string \<rightharpoonup> string)
     \<Rightarrow> heap \<times> (error + nfa list list)" where
  "noodlify_for_equation lib h left_automata right_automaton include_empty params =
     (let h1 = unify_all lib h left_automata in
      if left_automata = [] \<or> is_lang_empty lib (h1 right_automaton) then (h1, Inr [])
      else
        (let lefts = map h1 left_automata;
             right = h1 right_automaton;
             epsilon = equation_epsilon lib lefts right;
             p = product_pres_eps_trans lib lefts right
         in if is_lang_empty lib p then (h1, Inr [])
            else
              (let p' =
                 (case params ''reduce'' of
                    None \<Rightarrow> p
                  | Some reduce_value \<Rightarrow>
                      (let p1 = (if reduce_value = ''forward'' \<or> reduce_value = ''bidirectional''
                                 then reduce lib p else p)
                       in if reduce_value = ''backward'' \<or> reduce_value = ''bidirectional''
                          then revert lib (reduce lib (revert lib p1)) else p1))
               in (h1, noodlify lib p' epsilon include_empty))))"

text \<open>The overload for \<^verbatim>\<open>AutPtrSequence\<close>.\<close>

definition noodlify_for_equation_ptr ::
  "nfa_lib \<Rightarrow> heap \<Rightarrow> nat list \<Rightarrow> nat \<Rightarrow> bool \<Rightarrow> (string \<rightharpoonup> string)
     \<Rightarrow> heap \<times> (error + nfa list list)" where
  "noodlify_for_equation_ptr lib h left_automata right_automaton include_empty params =
     (let reduce_value = (case params ''reduce'' of None \<Rightarrow> [] | Some v \<Rightarrow> v);
          h1 = (if reduce_value \<noteq> [] \<and>
                   (reduce_value = ''forward'' \<or> reduce_value = ''backward''
                      \<or> reduce_value = ''bidirectional'')
                then unify_all lib h left_automata else h)
      in
      if left_automata = [] \<or> is_lang_empty lib (h1 right_automaton) then (h1, Inr [])
      else
        (let lefts = map h1 left_automata;
             right = h1 right_automaton;
             epsilon = equation_epsilon lib lefts right;
             p = product_pres_eps_trans lib lefts right
         in if is_lang_empty lib p then (h1, Inr [])
            else
              (let p' =
                 (if reduce_value \<noteq> [] then
                    (let p1 = (if reduce_value = ''forward'' \<or> reduce_value = ''bidirectional''
                               then reduce lib p else p)
                     in if reduce_value = ''backward'' \<or> reduce_value = ''bidirectional''
                        then revert lib (reduce lib (revert lib p1)) else p1)
                  else p)
               in (h1, noodlify lib p' epsilon include_empty))))"

subsection \<open>The library as the spec describes it\<close>

text \<open>
  The closed theorems below (evaluations at concrete automata) need a concrete library.
  Each operation here is written from the words of the spec; none of them is code of
  \<^verbatim>\<open>noodlify.cc\<close>.
\<close>

fun index_of :: "'a list \<Rightarrow> 'a \<Rightarrow> nat" where
  "index_of [] x = 0"
| "index_of (y # ys) x = (if x = y then 0 else Suc (index_of ys x))"

definition add_new :: "'a list \<Rightarrow> 'a list \<Rightarrow> 'a list" where
  "add_new xs ys = xs @ filter (\<lambda>y. y \<notin> set xs) (remdups ys)"

definition post_states :: "trans list \<Rightarrow> state list \<Rightarrow> state list" where
  "post_states ts S = add_new S (map tgt (filter (\<lambda>t. src t \<in> set S) ts))"

text \<open>
  The states reachable from \<open>S\<close>: \<open>post_states\<close> is iterated until nothing new is
  found, at most \<open>n\<close> times (an automaton of \<open>n\<close> states needs no more).
\<close>

fun reachable_states :: "nat \<Rightarrow> trans list \<Rightarrow> state list \<Rightarrow> state list" where
  "reachable_states 0 ts S = S"
| "reachable_states (Suc n) ts S =
     (let S' = post_states ts S in if S' = S then S else reachable_states n ts S')"

text \<open>
  Modelled from the spec: \<^verbatim>\<open>is_lang_empty\<close> of \<^verbatim>\<open>mata/nfa.hh\<close>. The spec: true
  iff no final state is reachable from any initial state; epsilon is just another
  symbol.
\<close>

definition spec_is_lang_empty :: "nfa \<Rightarrow> bool" where
  "spec_is_lang_empty A =
     (filter (\<lambda>f. f \<in> set (reachable_states (num_of_states A) (transitions A)
                                (initialstates A)))
             (finalstates A) = [])"

text \<open>
  Modelled from the spec: \<^verbatim>\<open>revert\<close> of \<^verbatim>\<open>mata/nfa.hh\<close>. The spec: the
  initial and the final states are swapped and every transition is reversed.
\<close>

definition spec_revert :: "nfa \<Rightarrow> nfa" where
  "spec_revert A =
     A\<lparr>initialstates := finalstates A, finalstates := initialstates A,
       transitions := map (\<lambda>t. (tgt t, symb t, src t)) (transitions A)\<rparr>"

text \<open>
  Modelled from the spec: \<^verbatim>\<open>Nfa::trim\<close> of \<^verbatim>\<open>mata/nfa.hh\<close>. The spec: removes
  the states that are on no path from an initial to a final state and renumbers the
  remaining ones to \<open>[0, n')\<close>. The remaining states keep their relative order.
\<close>

definition spec_trim :: "nfa \<Rightarrow> nfa" where
  "spec_trim A =
     (let fw = reachable_states (num_of_states A) (transitions A) (initialstates A);
          bw = reachable_states (num_of_states A) (transitions (spec_revert A)) (finalstates A);
          useful = filter (\<lambda>q. q \<in> set fw \<and> q \<in> set bw) [0..<num_of_states A];
          idx = index_of useful
      in \<lparr>num_of_states = length useful,
          initialstates = map idx (filter (\<lambda>q. q \<in> set useful) (initialstates A)),
          finalstates = map idx (filter (\<lambda>q. q \<in> set useful) (finalstates A)),
          transitions =
            map (\<lambda>t. (idx (src t), symb t, idx (tgt t)))
                (filter (\<lambda>t. src t \<in> set useful \<and> tgt t \<in> set useful) (transitions A))\<rparr>)"

text \<open>
  Modelled from the spec: \<^verbatim>\<open>unify_initial\<close> and \<^verbatim>\<open>unify_final\<close> of
  \<^verbatim>\<open>mata/nfa.hh\<close>. The spec: introduce one fresh initial state with epsilon edges to
  the old initial states, then replace the initial states with the singleton; dually
  for the final states. The spec does not say which symbol labels these edges (the
  epsilon of the equation is chosen only afterwards), so the label is an argument.
\<close>

definition spec_unify_initial :: "symbol \<Rightarrow> nfa \<Rightarrow> nfa" where
  "spec_unify_initial e A =
     A\<lparr>num_of_states := Suc (num_of_states A),
       transitions := transitions A @ map (\<lambda>i. (num_of_states A, e, i)) (initialstates A),
       initialstates := [num_of_states A]\<rparr>"

definition spec_unify_final :: "symbol \<Rightarrow> nfa \<Rightarrow> nfa" where
  "spec_unify_final e A =
     A\<lparr>num_of_states := Suc (num_of_states A),
       transitions := transitions A @ map (\<lambda>f. (f, e, num_of_states A)) (finalstates A),
       finalstates := [num_of_states A]\<rparr>"

text \<open>
  Modelled from the spec: \<^verbatim>\<open>concatenate_over_epsilon\<close> of \<^verbatim>\<open>mata/nfa.hh\<close>. The
  spec: the states are the disjoint union, with the states of \<open>B\<close> shifted by the size
  of \<open>A\<close>; the initial states are those of \<open>A\<close>, the final ones those of \<open>B\<close>; every
  transition is copied, and every final state of \<open>A\<close> gets an epsilon transition to
  every initial state of \<open>B\<close>.
\<close>

definition spec_concatenate_over_epsilon :: "nfa \<Rightarrow> nfa \<Rightarrow> symbol \<Rightarrow> nfa" where
  "spec_concatenate_over_epsilon A B e =
     (let k = num_of_states A in
      \<lparr>num_of_states = k + num_of_states B,
       initialstates = initialstates A,
       finalstates = map (\<lambda>q. q + k) (finalstates B),
       transitions =
         transitions A
         @ map (\<lambda>t. (src t + k, symb t, tgt t + k)) (transitions B)
         @ concat (map (\<lambda>a. map (\<lambda>b. (a, e, b + k)) (initialstates B)) (finalstates A))\<rparr>)"

text \<open>
  Modelled from the spec: \<^verbatim>\<open>intersection_over_epsilon\<close> of \<^verbatim>\<open>mata/nfa.hh\<close>. The
  spec: the states are pairs, built lazily from the initial pairs; a symbol other than
  epsilon moves both components, an epsilon transition of either automaton moves its
  own component only. A pair's state is its position in the order of discovery.
\<close>

definition pair_post :: "nfa \<Rightarrow> nfa \<Rightarrow> symbol \<Rightarrow> state \<times> state \<Rightarrow> (symbol \<times> state \<times> state) list" where
  "pair_post A B e pq =
     concat (map (\<lambda>ta. if src ta = fst pq \<and> symb ta \<noteq> e
                        then map (\<lambda>tb. (symb ta, tgt ta, tgt tb))
                               (filter (\<lambda>tb. src tb = snd pq \<and> symb tb = symb ta) (transitions B))
                        else [])
                 (transitions A))
     @ map (\<lambda>ta. (e, tgt ta, snd pq))
         (filter (\<lambda>ta. src ta = fst pq \<and> symb ta = e) (transitions A))
     @ map (\<lambda>tb. (e, fst pq, tgt tb))
         (filter (\<lambda>tb. src tb = snd pq \<and> symb tb = e) (transitions B))"

definition product_step :: "nfa \<Rightarrow> nfa \<Rightarrow> symbol \<Rightarrow> (state \<times> state) list \<Rightarrow> (state \<times> state) list" where
  "product_step A B e ps = add_new ps (concat (map (\<lambda>pq. map snd (pair_post A B e pq)) ps))"

fun product_closure :: "nat \<Rightarrow> nfa \<Rightarrow> nfa \<Rightarrow> symbol \<Rightarrow> (state \<times> state) list \<Rightarrow> (state \<times> state) list" where
  "product_closure 0 A B e ps = ps"
| "product_closure (Suc n) A B e ps =
     (let ps' = product_step A B e ps in if ps' = ps then ps else product_closure n A B e ps')"

definition product_pairs :: "nfa \<Rightarrow> nfa \<Rightarrow> symbol \<Rightarrow> (state \<times> state) list" where
  "product_pairs A B e =
     product_closure (num_of_states A * num_of_states B) A B e
       (concat (map (\<lambda>p. map (\<lambda>q. (p, q)) (initialstates B)) (initialstates A)))"

definition spec_intersection_over_epsilon :: "nfa \<Rightarrow> nfa \<Rightarrow> symbol \<Rightarrow> nfa" where
  "spec_intersection_over_epsilon A B e =
     (let ps = product_pairs A B e; idx = index_of ps in
      \<lparr>num_of_states = length ps,
       initialstates =
         map idx (concat (map (\<lambda>p. map (\<lambda>q. (p, q)) (initialstates B)) (initialstates A))),
       finalstates =
         map idx (filter (\<lambda>pq. fst pq \<in> set (finalstates A) \<and> snd pq \<in> set (finalstates B)) ps),
       transitions =
         concat (map (\<lambda>pq. map (\<lambda>x. (idx pq, fst x, idx (snd x))) (pair_post A B e pq)) ps)\<rparr>)"

text \<open>
  Modelled from the spec: the enumerated alphabet of \<^verbatim>\<open>mata/nfa.hh\<close>. The spec:
  built from the symbols of a set of automata; the next value is strictly greater than
  every symbol observed.
\<close>

definition spec_from_nfas :: "nfa list \<Rightarrow> symbol list" where
  "spec_from_nfas auts = remdups (concat (map (\<lambda>A. map symb (transitions A)) auts))"

definition spec_add_symbols_from :: "symbol list \<Rightarrow> nfa \<Rightarrow> symbol list" where
  "spec_add_symbols_from alphabet A = add_new alphabet (map symb (transitions A))"

definition spec_get_next_value :: "symbol list \<Rightarrow> symbol" where
  "spec_get_next_value alphabet = foldl (\<lambda>m s. max m (Suc s)) 0 alphabet"

text \<open>
  Modelled from the spec: the class \<^verbatim>\<open>Segmentation\<close> of \<^verbatim>\<open>mata/noodlify.hh\<close>. The
  spec: the epsilon transitions are grouped by depth, the number of epsilon transitions
  on a path from an initial state to their source; segment \<open>i\<close> is the automaton
  without its epsilon transitions, whose initial states are the targets of the
  epsilon transitions of depth \<open>i - 1\<close> (the initial states of the automaton for the
  first segment) and whose final states are the sources of those of depth \<open>i\<close> (the final
  states of the automaton for the last one). The segments are not trimmed.
\<close>

fun epsilon_layers :: "nat \<Rightarrow> nfa \<Rightarrow> symbol \<Rightarrow> state list \<Rightarrow> trans list list" where
  "epsilon_layers 0 A e S = []"
| "epsilon_layers (Suc fuel) A e S =
     (let layer = reachable_states (num_of_states A)
                    (filter (\<lambda>t. symb t \<noteq> e) (transitions A)) S;
          es = filter (\<lambda>t. symb t = e \<and> src t \<in> set layer) (transitions A)
      in if es = [] then [] else es # epsilon_layers fuel A e (remdups (map tgt es)))"

definition spec_get_epsilon_depths :: "nfa \<Rightarrow> symbol \<Rightarrow> (nat \<times> trans list) list" where
  "spec_get_epsilon_depths A e =
     (let layers = epsilon_layers (length (transitions A)) A e (initialstates A)
      in zip [0..<length layers] layers)"

definition spec_get_untrimmed_segments :: "nfa \<Rightarrow> symbol \<Rightarrow> nfa list" where
  "spec_get_untrimmed_segments A e =
     (let layers = epsilon_layers (length (transitions A)) A e (initialstates A);
          base = A\<lparr>transitions := filter (\<lambda>t. symb t \<noteq> e) (transitions A)\<rparr>
      in map (\<lambda>(inits, finals). base\<lparr>initialstates := inits, finalstates := finals\<rparr>)
           (zip (initialstates A # map (\<lambda>es. remdups (map tgt es)) layers)
                (map (\<lambda>es. remdups (map src es)) layers @ [finalstates A])))"

text \<open>
  The library of the spec. The spec gives \<^verbatim>\<open>reduce\<close> by its contract only (a
  language-equivalent automaton with no more states), so the reduction is an argument,
  as is the label of the edges that the unifications add.
\<close>

definition spec_lib :: "symbol \<Rightarrow> (nfa \<Rightarrow> nfa) \<Rightarrow> nfa_lib" where
  "spec_lib unify_label reduction =
     \<lparr>trim = spec_trim,
      is_lang_empty = spec_is_lang_empty,
      unify_initial = spec_unify_initial unify_label,
      unify_final = spec_unify_final unify_label,
      reduce = reduction,
      revert = spec_revert,
      concatenate_over_epsilon = spec_concatenate_over_epsilon,
      intersection_over_epsilon = spec_intersection_over_epsilon,
      from_nfas = spec_from_nfas,
      add_symbols_from = spec_add_symbols_from,
      get_next_value = spec_get_next_value,
      get_untrimmed_segments = spec_get_untrimmed_segments,
      get_epsilon_depths = spec_get_epsilon_depths\<rparr>"

subsection \<open>Terms in which the properties of noodlify.cc are stated\<close>

text \<open>
  The reduction that the spec asks for, following its words: \<open>forward\<close> gives
  \<open>reduce(P)\<close>, \<open>backward\<close> gives \<open>revert(reduce(revert(P)))\<close>, \<open>bidirectional\<close>
  gives both in that order, and any other value or no value leaves \<open>P\<close> as it is.
\<close>

definition reduce_by_params :: "nfa_lib \<Rightarrow> (string \<rightharpoonup> string) \<Rightarrow> nfa \<Rightarrow> nfa" where
  "reduce_by_params lib params p =
     (if params ''reduce'' = Some ''forward'' then reduce lib p
      else if params ''reduce'' = Some ''backward'' then revert lib (reduce lib (revert lib p))
      else if params ''reduce'' = Some ''bidirectional''
        then revert lib (reduce lib (revert lib (reduce lib p)))
      else p)"

text \<open>
  The result of the pipeline after the left automata are preprocessed, as the spec
  describes it in steps 1 and 3 to 8; \<open>h1\<close> is the heap once the preprocessing is
  done.
\<close>

definition equation_result ::
  "nfa_lib \<Rightarrow> heap \<Rightarrow> nat list \<Rightarrow> nat \<Rightarrow> bool \<Rightarrow> (string \<rightharpoonup> string)
     \<Rightarrow> error + nfa list list" where
  "equation_result lib h1 ls r include_empty params =
     (if ls = [] \<or> is_lang_empty lib (h1 r) then Inr []
      else if is_lang_empty lib (product_pres_eps_trans lib (map h1 ls) (h1 r)) then Inr []
      else noodlify lib
             (reduce_by_params lib params (product_pres_eps_trans lib (map h1 ls) (h1 r)))
             (equation_epsilon lib (map h1 ls) (h1 r)) include_empty)"

text \<open>The values of \<^verbatim>\<open>params["reduce"]\<close> for which the pointer overload unifies.\<close>

definition ptr_unifies :: "(string \<rightharpoonup> string) \<Rightarrow> bool" where
  "ptr_unifies params =
     (params ''reduce'' = Some ''forward'' \<or> params ''reduce'' = Some ''backward''
        \<or> params ''reduce'' = Some ''bidirectional'')"

text \<open>
  The mixed-radix decoding of the spec: \<open>depth_trans\<close> is the list of the epsilon
  transitions of a depth, \<open>radix_weight d\<close> the product of the sizes of the depths below
  \<open>d\<close>, and \<open>mixed_radix_choice i d\<close> the transition that index \<open>i\<close> selects at depth
  \<open>d\<close>: number \<open>(i div radix_weight d) mod |E d|\<close> of that depth.
\<close>

definition depth_trans :: "(nat \<times> trans list) list \<Rightarrow> nat \<Rightarrow> trans list" where
  "depth_trans epsilon_depths d =
     (case map_of epsilon_depths d of None \<Rightarrow> [] | Some ts \<Rightarrow> ts)"

definition radix_weight :: "(nat \<times> trans list) list \<Rightarrow> nat \<Rightarrow> nat" where
  "radix_weight epsilon_depths d =
     prod_list (map (\<lambda>j. length (depth_trans epsilon_depths j)) [0..<d])"

definition mixed_radix_choice :: "(nat \<times> trans list) list \<Rightarrow> nat \<Rightarrow> nat \<Rightarrow> trans" where
  "mixed_radix_choice epsilon_depths i d =
     depth_trans epsilon_depths d
       ! ((i div radix_weight epsilon_depths d) mod length (depth_trans epsilon_depths d))"

text \<open>The noodle that the loop body emits for an epsilon noodle, if it emits one.\<close>

definition noodle_at :: "segment_map \<Rightarrow> state \<Rightarrow> trans list \<Rightarrow> nfa list option" where
  "noodle_at m unused_state es =
     (case noodle_of m unused_state es of Inl e \<Rightarrow> None | Inr noodle \<Rightarrow> noodle)"

subsection \<open>Example automata\<close>

text \<open>
  Automata for the words \<open>a\<close>, \<open>b\<close>, \<open>ab\<close> and \<open>ba\<close> (\<open>a\<close> is 97, \<open>b\<close> is 98), an
  automaton without final states, one with two initial states, one for the word
  \<open>0 a 0\<close>, and an automaton with two epsilon depths of two transitions each
  (epsilon is 99).
\<close>

definition aut_a :: nfa where
  "aut_a = \<lparr>num_of_states = 2, initialstates = [0], finalstates = [1],
            transitions = [(0, 97, 1)]\<rparr>"

definition aut_b :: nfa where
  "aut_b = \<lparr>num_of_states = 2, initialstates = [0], finalstates = [1],
            transitions = [(0, 98, 1)]\<rparr>"

definition aut_ab :: nfa where
  "aut_ab = \<lparr>num_of_states = 3, initialstates = [0], finalstates = [2],
             transitions = [(0, 97, 1), (1, 98, 2)]\<rparr>"

definition aut_ba :: nfa where
  "aut_ba = \<lparr>num_of_states = 3, initialstates = [0], finalstates = [2],
             transitions = [(0, 98, 1), (1, 97, 2)]\<rparr>"

definition aut_none :: nfa where
  "aut_none = \<lparr>num_of_states = 1, initialstates = [0], finalstates = [],
               transitions = []\<rparr>"

definition aut_two_initial :: nfa where
  "aut_two_initial = \<lparr>num_of_states = 3, initialstates = [0, 1], finalstates = [2],
                      transitions = [(0, 97, 2), (1, 97, 2)]\<rparr>"

definition aut_0a0 :: nfa where
  "aut_0a0 = \<lparr>num_of_states = 4, initialstates = [0], finalstates = [3],
              transitions = [(0, 0, 1), (1, 97, 2), (2, 0, 3)]\<rparr>"

definition aut_two_depths :: nfa where
  "aut_two_depths =
     \<lparr>num_of_states = 10, initialstates = [0], finalstates = [9],
      transitions = [(0, 97, 1), (0, 98, 2), (1, 99, 3), (2, 99, 4), (3, 97, 5), (4, 98, 6),
                     (5, 99, 7), (6, 99, 8), (7, 97, 9), (8, 98, 9)]\<rparr>"

text \<open>
  A chain of 65 segments (\<open>a\<close> is 97, epsilon is 98). Segment \<open>j\<close> has the states
  \<open>3 j\<close>, \<open>3 j + 1\<close> and \<open>3 j + 2\<close> and the transitions \<open>3 j -a-> 3 j + 1\<close> and
  \<open>3 j -a-> 3 j + 2\<close>; for \<open>j < 64\<close> the states \<open>3 j + 1\<close> and \<open>3 j + 2\<close> have an
  epsilon transition each to \<open>3 j + 3\<close>, the first state of the next segment. The
  automaton has 195 states, 258 transitions and 64 epsilon depths of two transitions
  each.
\<close>

definition chain_eps :: "nat \<Rightarrow> trans list" where
  "chain_eps j = [(3 * j + 1, 98, 3 * j + 3), (3 * j + 2, 98, 3 * j + 3)]"

definition chain_block :: "nat \<Rightarrow> trans list" where
  "chain_block j =
     [(3 * j, 97, 3 * j + 1), (3 * j, 97, 3 * j + 2)] @ (if j < 64 then chain_eps j else [])"

definition aut_chain :: nfa where
  "aut_chain = \<lparr>num_of_states = 195, initialstates = [0], finalstates = [193, 194],
                transitions = concat (map chain_block [0..<65])\<rparr>"

definition example_heap :: heap where
  "example_heap =
     (\<lambda>a. aut_none)(0 := aut_a, 1 := aut_b, 2 := aut_ab, 3 := aut_ba, 5 := aut_two_initial,
                     6 := aut_0a0)"

section \<open>The regex compiler (re2parser.cc)\<close>

subsection \<open>Primitive edits of an automaton\<close>







subsection \<open>Errors, vectors and loops\<close>





subsection \<open>Programs of the regex engine\<close>


datatype empty_op =
  kEmptyBeginLine | kEmptyEndLine | kEmptyBeginText | kEmptyEndText
  | kEmptyWordBoundary | kEmptyNonWordBoundary



subsection \<open>The state cache\<close>










subsection \<open>The conversion of a program\<close>











subsection \<open>renumber_states\<close>







subsection \<open>create_nfa\<close>


subsection \<open>Terms in which the properties of re2parser.cc are stated\<close>


text \<open>The reserved symbol of an assertion, as the spec lists them.\<close>

fun assertion_symbol :: "empty_op \<Rightarrow> symbol" where
  "assertion_symbol kEmptyBeginLine = 300"
| "assertion_symbol kEmptyEndLine = 10"
| "assertion_symbol kEmptyBeginText = 301"
| "assertion_symbol kEmptyEndText = 302"
| "assertion_symbol kEmptyWordBoundary = 303"
| "assertion_symbol kEmptyNonWordBoundary = 304"

subsection \<open>Example programs\<close>


section \<open>Properties of noodlify.cc\<close>

subsection \<open>Evaluating the library of the spec\<close>

lemma reachable_states_unfold:
  "reachable_states n ts S =
     (if n = 0 then S
      else let S' = post_states ts S in if S' = S then S else reachable_states (n - 1) ts S')"
  by (cases n) (simp_all add: Let_def)

lemma product_closure_unfold:
  "product_closure n A B e ps =
     (if n = 0 then ps
      else let ps' = product_step A B e ps
           in if ps' = ps then ps else product_closure (n - 1) A B e ps')"
  by (cases n) (simp_all add: Let_def)

lemmas funpow_unfold = reachable_states_unfold product_closure_unfold

lemma upt_unfold: "[i..<j] = (if i < j then i # [i + 1..<j] else [])"
  by (simp add: upt_rec)

text \<open>
  Evaluation by the simplifier is call by value: these congruence rules keep it from
  rewriting the body of a function before the function is applied.
\<close>

lemma map_weak_cong: "xs = ys \<Longrightarrow> map f xs = map f ys"
  by simp

lemma filter_weak_cong: "xs = ys \<Longrightarrow> filter P xs = filter P ys"
  by simp

lemma foldl_weak_cong: "a = b \<Longrightarrow> xs = ys \<Longrightarrow> foldl f a xs = foldl f b ys"
  by simp

lemmas weak_congs = let_weak_cong map_weak_cong filter_weak_cong foldl_weak_cong

lemmas nfa_eval =
  spec_lib_def spec_is_lang_empty_def spec_revert_def spec_trim_def spec_unify_initial_def
  spec_unify_final_def spec_concatenate_over_epsilon_def spec_intersection_over_epsilon_def
  pair_post_def product_step_def product_pairs_def spec_from_nfas_def spec_add_symbols_from_def
  spec_get_next_value_def spec_get_epsilon_depths_def spec_get_untrimmed_segments_def
  post_states_def add_new_def src_def symb_def tgt_def Let_def
  equation_epsilon_def concatenated_left_side_def product_pres_eps_trans_def

lemmas automata_eval =
  aut_a_def aut_b_def aut_ab_def aut_ba_def aut_none_def aut_two_initial_def aut_0a0_def
  aut_two_depths_def

subsection \<open>The two overloads, step by step\<close>

lemma reduce_names_distinct:
  "''forward'' \<noteq> ''backward''" "''forward'' \<noteq> ''bidirectional''"
  "''backward'' \<noteq> ''bidirectional''"
  "''forward'' \<noteq> []" "''backward'' \<noteq> []" "''bidirectional'' \<noteq> []"
  by simp_all

lemma reduce_step:
  "(let p1 = (if rv = ''forward'' \<or> rv = ''bidirectional'' then reduce lib p else p)
    in if rv = ''backward'' \<or> rv = ''bidirectional''
       then revert lib (reduce lib (revert lib p1)) else p1) =
   (if rv = ''forward'' then reduce lib p
    else if rv = ''backward'' then revert lib (reduce lib (revert lib p))
    else if rv = ''bidirectional'' then revert lib (reduce lib (revert lib (reduce lib p)))
    else p)"
proof -
  consider "rv = ''forward''" | "rv = ''backward''" | "rv = ''bidirectional''"
    | "rv \<noteq> ''forward''" "rv \<noteq> ''backward''" "rv \<noteq> ''bidirectional''"
    by blast
  then show ?thesis
  proof cases
    case 1
    then show ?thesis unfolding Let_def using reduce_names_distinct by simp
  next
    case 2
    then show ?thesis unfolding Let_def using reduce_names_distinct by simp
  next
    case 3
    then show ?thesis unfolding Let_def using reduce_names_distinct by simp
  next
    case 4
    then show ?thesis unfolding Let_def by simp
  qed
qed

lemma reduce_by_params_None: "params ''reduce'' = None \<Longrightarrow> reduce_by_params lib params p = p"
  by (simp add: reduce_by_params_def)

lemma reduce_by_params_Some:
  "params ''reduce'' = Some rv \<Longrightarrow> reduce_by_params lib params p =
   (let p1 = (if rv = ''forward'' \<or> rv = ''bidirectional'' then reduce lib p else p)
    in if rv = ''backward'' \<or> rv = ''bidirectional''
       then revert lib (reduce lib (revert lib p1)) else p1)"
  by (simp only: reduce_step) (simp add: reduce_by_params_def)

lemma noodlify_for_equation_steps:
  "noodlify_for_equation lib h ls r ie params =
     (unify_all lib h ls, equation_result lib (unify_all lib h ls) ls r ie params)"
proof (cases "params ''reduce''")
  case None
  then show ?thesis
    by (simp add: noodlify_for_equation_def equation_result_def Let_def reduce_by_params_None)
next
  case (Some rv)
  have r: "reduce_by_params lib params p =
     (let p1 = (if rv = ''forward'' \<or> rv = ''bidirectional'' then reduce lib p else p)
      in if rv = ''backward'' \<or> rv = ''bidirectional''
         then revert lib (reduce lib (revert lib p1)) else p1)" for p
    using Some by (rule reduce_by_params_Some)
  show ?thesis
    unfolding noodlify_for_equation_def equation_result_def r
    by (simp add: Some Let_def)
qed

lemma noodlify_for_equation_ptr_steps:
  "noodlify_for_equation_ptr lib h ls r ie params =
     ((if ptr_unifies params then unify_all lib h ls else h),
      equation_result lib (if ptr_unifies params then unify_all lib h ls else h) ls r ie params)"
proof (cases "params ''reduce''")
  case None
  then show ?thesis
    by (simp add: noodlify_for_equation_ptr_def equation_result_def Let_def
        reduce_by_params_None ptr_unifies_def)
next
  case (Some rv)
  have r: "reduce_by_params lib params p =
     (let p1 = (if rv = ''forward'' \<or> rv = ''bidirectional'' then reduce lib p else p)
      in if rv = ''backward'' \<or> rv = ''bidirectional''
         then revert lib (reduce lib (revert lib p1)) else p1)" for p
    using Some by (rule reduce_by_params_Some)
  have u: "ptr_unifies params =
     (rv \<noteq> [] \<and> (rv = ''forward'' \<or> rv = ''backward'' \<or> rv = ''bidirectional''))"
    using reduce_names_distinct by (auto simp add: ptr_unifies_def Some)
  show ?thesis
  proof (cases "rv = []")
    case True
    then show ?thesis
      unfolding noodlify_for_equation_ptr_def equation_result_def r u
      by (simp add: Some Let_def)
  next
    case False
    then show ?thesis
      unfolding noodlify_for_equation_ptr_def equation_result_def r u
      by (simp add: Some Let_def)
  qed
qed

lemma unify_all_other: "a \<notin> set as \<Longrightarrow> unify_all lib h as a = h a"
  by (induction as arbitrary: h) auto

lemma unify_all_cong:
  "(\<forall>a \<in> set as. h a = h' a) \<Longrightarrow> b \<in> set as \<Longrightarrow>
     unify_all lib h as b = unify_all lib h' as b"
proof (induction as arbitrary: h h')
  case Nil
  then show ?case by simp
next
  case (Cons a as)
  define g where "g = h(a := unify_final lib (unify_initial lib (h a)))"
  define g' where "g' = h'(a := unify_final lib (unify_initial lib (h' a)))"
  have eq: "\<forall>x \<in> set (a # as). g x = g' x" using Cons.prems(1) by (simp add: g_def g'_def)
  have step: "unify_all lib h (a # as) b = unify_all lib g as b"
    "unify_all lib h' (a # as) b = unify_all lib g' as b"
    by (simp_all add: g_def g'_def)
  show ?case
  proof (cases "b \<in> set as")
    case True
    then have "unify_all lib g as b = unify_all lib g' as b" using Cons.IH[of g g'] eq by simp
    then show ?thesis using step by simp
  next
    case False
    then have "b = a" using Cons.prems(2) by simp
    then have "unify_all lib g as b = g b" "unify_all lib g' as b = g' b"
      using False by (simp_all add: unify_all_other)
    then show ?thesis using step eq \<open>b = a\<close> by simp
  qed
qed

lemma equation_result_cong:
  "map h1 ls = map h1' ls \<Longrightarrow> h1 r = h1' r \<Longrightarrow>
     equation_result lib h1 ls r ie params = equation_result lib h1' ls r ie params"
  by (simp only: equation_result_def)

lemma example_heap_simps:
  "example_heap 0 = aut_a" "example_heap 1 = aut_b" "example_heap 2 = aut_ab"
  "example_heap 3 = aut_ba" "example_heap 4 = aut_none" "example_heap 5 = aut_two_initial"
  "example_heap 6 = aut_0a0" "example_heap (Suc 0) = aut_b"
  by (simp_all add: example_heap_def)

subsection \<open>C6: empty input is not an error\<close>

text \<open>
  Claim C6. For both overloads: when the left side is the empty sequence, or the right
  automaton has the empty language, or the trimmed epsilon-preserving product of the
  concatenated left side with the right automaton has the empty language, the call
  returns the empty NoodleSequence and no error. The automata are read from the heap
  that the call leaves, that is, after the preprocessing of the left side.
\<close>

theorem empty_input_returns_empty_sequence:
  fixes lib h ls r include_empty params
  defines "h1 \<equiv> fst (noodlify_for_equation lib h ls r include_empty params)"
  defines "h2 \<equiv> fst (noodlify_for_equation_ptr lib h ls r include_empty params)"
  shows "(ls = [] \<or> is_lang_empty lib (h1 r)
            \<or> is_lang_empty lib (product_pres_eps_trans lib (map h1 ls) (h1 r))
          \<longrightarrow> snd (noodlify_for_equation lib h ls r include_empty params) = Inr [])
       \<and> (ls = [] \<or> is_lang_empty lib (h2 r)
            \<or> is_lang_empty lib (product_pres_eps_trans lib (map h2 ls) (h2 r))
          \<longrightarrow> snd (noodlify_for_equation_ptr lib h ls r include_empty params) = Inr [])"
  unfolding h1_def h2_def noodlify_for_equation_steps noodlify_for_equation_ptr_steps
  by (simp add: equation_result_def)

theorem empty_input_returns_empty_sequence_witness:
  "is_lang_empty (spec_lib 0 id) aut_none
   \<and> is_lang_empty (spec_lib 0 id) (product_pres_eps_trans (spec_lib 0 id) [aut_a, aut_b] aut_ba)
   \<and> snd (noodlify_for_equation (spec_lib 0 id) example_heap [] 2 False Map.empty) = Inr []
   \<and> snd (noodlify_for_equation (spec_lib 0 id) example_heap [0, 1] 4 False Map.empty) = Inr []
   \<and> snd (noodlify_for_equation_ptr (spec_lib 0 id) example_heap [0, 1] 3 False Map.empty)
       = Inr []"
proof -
  let ?L = "spec_lib 0 id"
  have e1: "is_lang_empty ?L aut_none"
    by (simp add: nfa_eval automata_eval funpow_unfold upt_unfold cong: weak_congs)
  have e2: "is_lang_empty ?L (product_pres_eps_trans ?L [aut_a, aut_b] aut_ba)"
    by (simp add: nfa_eval automata_eval funpow_unfold upt_unfold cong: weak_congs)
  have h1: "fst (noodlify_for_equation ?L example_heap [0, 1] 4 False Map.empty) 4 = aut_none"
    by (simp add: noodlify_for_equation_steps example_heap_simps)
  have h2: "fst (noodlify_for_equation_ptr ?L example_heap [0, 1] 3 False Map.empty)
              = example_heap"
    by (simp add: noodlify_for_equation_ptr_steps ptr_unifies_def)
  have r1: "snd (noodlify_for_equation ?L example_heap [] 2 False Map.empty) = Inr []"
    by (rule empty_input_returns_empty_sequence[THEN conjunct1, THEN mp]) simp
  have r2: "snd (noodlify_for_equation ?L example_heap [0, 1] 4 False Map.empty) = Inr []"
    by (rule empty_input_returns_empty_sequence[THEN conjunct1, THEN mp])
       (simp only: h1 e1 simp_thms)
  have r3: "snd (noodlify_for_equation_ptr ?L example_heap [0, 1] 3 False Map.empty) = Inr []"
    by (rule empty_input_returns_empty_sequence[THEN conjunct2, THEN mp])
       (simp only: h2, simp add: example_heap_simps e2)
  show ?thesis using e1 e2 r1 r2 r3 by simp
qed

subsection \<open>C7: the reduce parameter\<close>

text \<open>
  Claim C7. For both overloads, when the call gets past the checks for an empty input,
  its result is noodlify applied to the trimmed epsilon-preserving product \<open>P\<close> reduced
  as \<open>params["reduce"]\<close> says: \<open>reduce(P)\<close> for \<open>forward\<close>,
  \<open>revert(reduce(revert(P)))\<close> for \<open>backward\<close>, the forward reduction followed by the
  backward one for \<open>bidirectional\<close>, and \<open>P\<close> itself for any other value or when the
  key is absent (\<open>reduce_by_params\<close>).
\<close>

theorem reduce_parameter_semantics:
  fixes lib h ls r include_empty params
  defines "h1 \<equiv> fst (noodlify_for_equation lib h ls r include_empty params)"
  defines "h2 \<equiv> fst (noodlify_for_equation_ptr lib h ls r include_empty params)"
  shows "(ls \<noteq> [] \<and> \<not> is_lang_empty lib (h1 r)
            \<and> \<not> is_lang_empty lib (product_pres_eps_trans lib (map h1 ls) (h1 r))
          \<longrightarrow> snd (noodlify_for_equation lib h ls r include_empty params) =
                noodlify lib
                  (reduce_by_params lib params (product_pres_eps_trans lib (map h1 ls) (h1 r)))
                  (equation_epsilon lib (map h1 ls) (h1 r)) include_empty)
       \<and> (ls \<noteq> [] \<and> \<not> is_lang_empty lib (h2 r)
            \<and> \<not> is_lang_empty lib (product_pres_eps_trans lib (map h2 ls) (h2 r))
          \<longrightarrow> snd (noodlify_for_equation_ptr lib h ls r include_empty params) =
                noodlify lib
                  (reduce_by_params lib params (product_pres_eps_trans lib (map h2 ls) (h2 r)))
                  (equation_epsilon lib (map h2 ls) (h2 r)) include_empty)"
  unfolding h1_def h2_def noodlify_for_equation_steps noodlify_for_equation_ptr_steps
  by (simp add: equation_result_def)

theorem reduce_parameter_semantics_witness:
  "snd (noodlify_for_equation (spec_lib 0 spec_trim) example_heap [0] 6 False
          [''reduce'' \<mapsto> ''forward''])
     = noodlify (spec_lib 0 spec_trim) (spec_trim aut_0a0) 98 False
   \<and> snd (noodlify_for_equation_ptr (spec_lib 0 spec_trim) example_heap [0, 1] 2 False
          [''reduce'' \<mapsto> ''none''])
     = noodlify (spec_lib 0 spec_trim)
         \<lparr>num_of_states = 4, initialstates = [0], finalstates = [3],
          transitions = [(0, 97, 1), (1, 99, 2), (2, 98, 3)]\<rparr> 99 False"
proof -
  let ?L = "spec_lib 0 spec_trim"
  let ?fw = "[''reduce'' \<mapsto> ''forward'']"
  let ?no = "[''reduce'' \<mapsto> ''none'']"
  let ?a' = "spec_unify_final 0 (spec_unify_initial 0 aut_a)"
  have h1: "fst (noodlify_for_equation ?L example_heap [0] 6 False ?fw) =
              example_heap(0 := ?a')"
    by (simp add: noodlify_for_equation_steps example_heap_simps spec_lib_def)
  have h2: "fst (noodlify_for_equation_ptr ?L example_heap [0, 1] 2 False ?no) = example_heap"
    by (simp add: noodlify_for_equation_ptr_steps ptr_unifies_def)
  have p1: "product_pres_eps_trans ?L [?a'] aut_0a0 = aut_0a0"
    by (simp add: nfa_eval automata_eval funpow_unfold upt_unfold cong: weak_congs)
  have p2: "product_pres_eps_trans ?L [aut_a, aut_b] aut_ab =
              \<lparr>num_of_states = 4, initialstates = [0], finalstates = [3],
               transitions = [(0, 97, 1), (1, 99, 2), (2, 98, 3)]\<rparr>"
    by (simp add: nfa_eval automata_eval funpow_unfold upt_unfold cong: weak_congs)
  have e1: "equation_epsilon ?L [?a'] aut_0a0 = 98"
    by (simp add: nfa_eval automata_eval cong: weak_congs)
  have e2: "equation_epsilon ?L [aut_a, aut_b] aut_ab = 99"
    by (simp add: nfa_eval automata_eval cong: weak_congs)
  have n1: "\<not> is_lang_empty ?L aut_0a0"
    by (simp add: nfa_eval automata_eval funpow_unfold upt_unfold cong: weak_congs)
  have n2: "\<not> is_lang_empty ?L aut_ab"
    by (simp add: nfa_eval automata_eval funpow_unfold upt_unfold cong: weak_congs)
  have n3: "\<not> is_lang_empty ?L \<lparr>num_of_states = 4, initialstates = [0], finalstates = [3],
               transitions = [(0, 97, 1), (1, 99, 2), (2, 98, 3)]\<rparr>"
    by (simp add: nfa_eval funpow_unfold upt_unfold cong: weak_congs)
  have r1: "reduce_by_params ?L ?fw aut_0a0 = spec_trim aut_0a0"
    by (simp add: reduce_by_params_def spec_lib_def)
  have r2: "reduce_by_params ?L ?no p = p" for p
    by (simp add: reduce_by_params_def)
  have c1: "snd (noodlify_for_equation ?L example_heap [0] 6 False ?fw)
             = noodlify ?L (reduce_by_params ?L ?fw (product_pres_eps_trans ?L
                   (map (fst (noodlify_for_equation ?L example_heap [0] 6 False ?fw)) [0])
                   (fst (noodlify_for_equation ?L example_heap [0] 6 False ?fw) 6)))
                 (equation_epsilon ?L
                   (map (fst (noodlify_for_equation ?L example_heap [0] 6 False ?fw)) [0])
                   (fst (noodlify_for_equation ?L example_heap [0] 6 False ?fw) 6)) False"
    by (rule reduce_parameter_semantics[THEN conjunct1, THEN mp])
       (simp add: h1 example_heap_simps p1 n1)
  have c2: "snd (noodlify_for_equation_ptr ?L example_heap [0, 1] 2 False ?no)
             = noodlify ?L (reduce_by_params ?L ?no (product_pres_eps_trans ?L
                   (map (fst (noodlify_for_equation_ptr ?L example_heap [0, 1] 2 False ?no)) [0, 1])
                   (fst (noodlify_for_equation_ptr ?L example_heap [0, 1] 2 False ?no) 2)))
                 (equation_epsilon ?L
                   (map (fst (noodlify_for_equation_ptr ?L example_heap [0, 1] 2 False ?no)) [0, 1])
                   (fst (noodlify_for_equation_ptr ?L example_heap [0, 1] 2 False ?no) 2)) False"
    using p2 n2 n3
    by (intro reduce_parameter_semantics[THEN conjunct2, THEN mp])
       (simp only: h2, simp add: example_heap_simps)
  show ?thesis
    unfolding c1 c2 h1 h2 using p1 p2 e1 e2 by (simp add: example_heap_simps r1 r2)

qed

subsection \<open>C8: the mixed-radix enumeration of noodlify\<close>

lemma radix_weight_Suc:
  "radix_weight eds (Suc d) = radix_weight eds d * length (depth_trans eds d)"
  by (simp add: radix_weight_def)

lemma foldl_mod_prod:
  "foldl (\<lambda>n (s :: nat \<times> trans list). (n * length (snd s)) mod M) a eds =
     (if eds = [] then a else (a * prod_list (map (\<lambda>s. length (snd s)) eds)) mod M)"
proof (induction eds arbitrary: a)
  case Nil
  then show ?case by simp
next
  case (Cons s eds)
  show ?case
  proof (cases "eds = []")
    case True
    then show ?thesis by simp
  next
    case False
    have "(a * length (snd s) mod M * prod_list (map (\<lambda>s. length (snd s)) eds)) mod M =
          (a * length (snd s) * prod_list (map (\<lambda>s. length (snd s)) eds)) mod M"
      by (rule mod_mult_left_eq)
    then show ?thesis using False Cons.IH[of "a * length (snd s) mod M"]
      by (simp add: mult.assoc)
  qed
qed

lemma keys_depth_trans:
  assumes "distinct (map fst eds)" "e \<in> set eds"
  shows "depth_trans eds (fst e) = snd e"
proof -
  have "map_of eds (fst e) = Some (snd e)" using assms by (cases e) simp
  then show ?thesis by (simp add: depth_trans_def)
qed

lemma prod_entries_eq_weight:
  assumes d: "distinct (map fst eds)" and keys: "fst ` set eds = {0..<length eds}"
  shows "prod_list (map (\<lambda>s. length (snd s)) eds) = radix_weight eds (length eds)"
proof -
  define g where "g = (\<lambda>d. length (depth_trans eds d))"
  have "map (\<lambda>s. length (snd s)) eds = map g (map fst eds)"
    using keys_depth_trans[OF d] by (simp add: g_def)
  then have "prod_list (map (\<lambda>s. length (snd s)) eds) = prod_list (map g (map fst eds))"
    by (simp only:)
  also have "\<dots> = prod g (set (map fst eds))"
    by (rule prod.distinct_set_conv_list[OF d, symmetric])
  also have "set (map fst eds) = set [0..<length eds]" using keys by simp
  also have "prod g (set [0..<length eds]) = prod_list (map g [0..<length eds])"
    by (rule prod.distinct_set_conv_list) simp
  finally show ?thesis by (simp add: radix_weight_def g_def)
qed

lemma noodle_of_Cons: "\<exists>r. noodle_of m u (e0 # es) = Inr r"
  by (simp add: noodle_of_def split: option.split)

lemma epsilon_noodle_decode:
  assumes keys: "\<forall>j < k. map_of eds j \<noteq> None" and pos: "\<forall>j < k. depth_trans eds j \<noteq> []"
  shows "d \<le> k \<Longrightarrow> epsilon_noodle eds [d..<k] (i div radix_weight eds d) =
           Inr (map (mixed_radix_choice eds i) [d..<k])"
proof (induction "k - d" arbitrary: d)
  case 0
  then show ?case by simp
next
  case (Suc n)
  then have dk: "d < k" by simp
  obtain ts where ts: "map_of eds d = Some ts" using keys dk by auto
  then have dt: "depth_trans eds d = ts" by (simp add: depth_trans_def)
  have ne: "ts \<noteq> []" using pos dk dt by auto
  have IH: "epsilon_noodle eds [Suc d..<k] (i div radix_weight eds (Suc d)) =
            Inr (map (mixed_radix_choice eds i) [Suc d..<k])"
    using Suc.hyps(1)[of "Suc d"] Suc.hyps(2) dk by simp
  have w: "i div radix_weight eds d div length ts = i div radix_weight eds (Suc d)"
    by (simp add: radix_weight_Suc dt div_mult2_eq)
  show ?case
    using ts ne IH w dt
    by (simp add: upt_conv_Cons[OF dk] Let_def mixed_radix_choice_def)
qed

lemma noodles_loop_map_filter:
  assumes "\<forall>i \<in> set indices.
             epsilon_noodle eds [0..<length eds] i = Inr (choice i) \<and> choice i \<noteq> []"
  shows "noodles_loop m u eds indices =
           Inr (List.map_filter (\<lambda>i. noodle_at m u (choice i)) indices)"
  using assms
proof (induction indices)
  case Nil
  then show ?case by (simp add: List.map_filter_simps)
next
  case (Cons i indices)
  obtain e0 es where c: "choice i = e0 # es" using Cons.prems by (cases "choice i") auto
  obtain r where r: "noodle_of m u (choice i) = Inr r"
    unfolding c using noodle_of_Cons by blast
  have "noodles_loop m u eds indices =
           Inr (List.map_filter (\<lambda>i. noodle_at m u (choice i)) indices)"
    using Cons by simp
  then show ?case using Cons.prems r
    by (cases r) (simp_all add: List.map_filter_simps noodle_at_def)
qed

subsection \<open>C8 at an automaton with \<open>2 ^ 64\<close> assignments\<close>

text \<open>
  The segmentation of the chain automaton, by the library of the spec: 64 epsilon depths
  of two transitions each, and 65 segments; segment \<open>j\<close> has the initial state \<open>3 j\<close> and
  the final states \<open>3 j + 1\<close> and \<open>3 j + 2\<close>.
\<close>

lemma filter_concat_upt:
  assumes "\<And>i. i < n \<Longrightarrow> i \<noteq> j \<Longrightarrow> filter P (f i) = []"
  shows "filter P (concat (map f [0..<n])) = (if j < n then filter P (f j) else [])"
  using assms
proof (induction n)
  case 0
  show ?case by simp
next
  case (Suc n)
  have IH: "filter P (concat (map f [0..<n])) = (if j < n then filter P (f j) else [])"
    using Suc.prems by (intro Suc.IH) simp
  show ?case
  proof (cases "j = n")
    case True
    then show ?thesis using IH by simp
  next
    case False
    then have "filter P (f n) = []" using Suc.prems[of n] by simp
    then show ?thesis using IH False by (auto simp add: less_Suc_eq)
  qed
qed

lemma chain_letters_from_entry:
  assumes "j \<le> 64"
  shows "filter (\<lambda>t. src t \<in> set [3 * j])
           (filter (\<lambda>t. symb t \<noteq> 98) (transitions aut_chain)) =
         [(3 * j, 97, 3 * j + 1), (3 * j, 97, 3 * j + 2)]"
proof -
  let ?P = "\<lambda>t. symb t \<noteq> 98 \<and> src t \<in> set [3 * j]"
  have other: "filter ?P (chain_block i) = []" if "i \<noteq> j" for i
    using that by (auto simp add: chain_block_def chain_eps_def src_def symb_def)
  have "filter ?P (concat (map chain_block [0..<65])) =
          (if j < 65 then filter ?P (chain_block j) else [])"
    by (rule filter_concat_upt) (use other in blast)
  then show ?thesis using assms
    by (simp add: aut_chain_def chain_block_def chain_eps_def src_def symb_def)
qed

lemma chain_letters_from_segment:
  assumes "j \<le> 64"
  shows "filter (\<lambda>t. src t \<in> set [3 * j, 3 * j + 1, 3 * j + 2])
           (filter (\<lambda>t. symb t \<noteq> 98) (transitions aut_chain)) =
         [(3 * j, 97, 3 * j + 1), (3 * j, 97, 3 * j + 2)]"
proof -
  let ?P = "\<lambda>t. symb t \<noteq> 98 \<and> src t \<in> set [3 * j, 3 * j + 1, 3 * j + 2]"
  have other: "filter ?P (chain_block i) = []" if "i \<noteq> j" for i
    using that by (auto simp add: chain_block_def chain_eps_def src_def symb_def)
  have "filter ?P (concat (map chain_block [0..<65])) =
          (if j < 65 then filter ?P (chain_block j) else [])"
    by (rule filter_concat_upt) (use other in blast)
  then show ?thesis using assms
    by (simp add: aut_chain_def chain_block_def chain_eps_def src_def symb_def)
qed

lemma chain_epsilon_from_segment:
  assumes "j \<le> 64"
  shows "filter (\<lambda>t. symb t = 98 \<and> src t \<in> set [3 * j, 3 * j + 1, 3 * j + 2])
           (transitions aut_chain) =
         (if j < 64 then chain_eps j else [])"
proof -
  let ?P = "\<lambda>t. symb t = 98 \<and> src t \<in> set [3 * j, 3 * j + 1, 3 * j + 2]"
  have other: "filter ?P (chain_block i) = []" if "i \<noteq> j" for i
    using that by (auto simp add: chain_block_def chain_eps_def src_def symb_def)
  have "filter ?P (concat (map chain_block [0..<65])) =
          (if j < 65 then filter ?P (chain_block j) else [])"
    by (rule filter_concat_upt) (use other in blast)
  then show ?thesis using assms
    by (simp add: aut_chain_def chain_block_def chain_eps_def src_def symb_def)
qed

lemma chain_segment_states:
  assumes "j \<le> 64"
  shows "reachable_states 195 (filter (\<lambda>t. symb t \<noteq> 98) (transitions aut_chain)) [3 * j] =
           [3 * j, 3 * j + 1, 3 * j + 2]"
proof -
  let ?T = "filter (\<lambda>t. symb t \<noteq> 98) (transitions aut_chain)"
  have p1: "post_states ?T [3 * j] = [3 * j, 3 * j + 1, 3 * j + 2]"
    unfolding post_states_def chain_letters_from_entry[OF assms]
    by (simp add: add_new_def tgt_def)
  have p2: "post_states ?T [3 * j, 3 * j + 1, 3 * j + 2] = [3 * j, 3 * j + 1, 3 * j + 2]"
    unfolding post_states_def chain_letters_from_segment[OF assms]
    by (simp add: add_new_def tgt_def)
  have "reachable_states (Suc (Suc 193)) ?T [3 * j] = [3 * j, 3 * j + 1, 3 * j + 2]"
    unfolding reachable_states.simps Let_def p1 p2 by simp
  then show ?thesis by simp
qed

lemma chain_layer_step:
  assumes "j \<le> 64"
  shows "epsilon_layers (Suc fuel) aut_chain 98 [3 * j] =
           (if j < 64 then chain_eps j # epsilon_layers fuel aut_chain 98 [3 * (j + 1)] else [])"
proof -
  have n: "num_of_states aut_chain = 195" by (simp add: aut_chain_def)
  have t: "remdups (map tgt (chain_eps j)) = [3 * (j + 1)]"
    by (simp add: chain_eps_def tgt_def)
  have ne: "chain_eps j \<noteq> []" by (simp add: chain_eps_def)
  show ?thesis
    unfolding epsilon_layers.simps n chain_segment_states[OF assms] Let_def
      chain_epsilon_from_segment[OF assms]
    using t ne by simp
qed

lemma chain_layers:
  "j \<le> 64 \<Longrightarrow> 64 - j < fuel \<Longrightarrow>
     epsilon_layers fuel aut_chain 98 [3 * j] = map chain_eps [j..<64]"
proof (induction fuel arbitrary: j)
  case 0
  then show ?case by simp
next
  case (Suc fuel)
  show ?case
  proof (cases "j < 64")
    case True
    then have "epsilon_layers fuel aut_chain 98 [3 * (j + 1)] = map chain_eps [j + 1..<64]"
      using Suc.prems by (intro Suc.IH) simp_all
    moreover have "epsilon_layers (Suc fuel) aut_chain 98 [3 * j] =
        chain_eps j # epsilon_layers fuel aut_chain 98 [3 * (j + 1)]"
      unfolding chain_layer_step[OF Suc.prems(1)] using True by simp
    moreover have "[j..<64] = j # [j + 1..<64]" using True by (simp add: upt_conv_Cons)
    ultimately show ?thesis by (simp only: list.map)
  next
    case False
    have "epsilon_layers (Suc fuel) aut_chain 98 [3 * j] = []"
      unfolding chain_layer_step[OF Suc.prems(1)] using False by simp
    moreover have "[j..<64] = []" using False by simp
    ultimately show ?thesis by (simp only: list.map)
  qed
qed

lemma length_concat_upt:
  "(\<And>i. i < n \<Longrightarrow> c \<le> length (f i)) \<Longrightarrow> c * n \<le> length (concat (map f [0..<n]))"
proof (induction n)
  case 0
  show ?case by simp
next
  case (Suc n)
  have "c * n \<le> length (concat (map f [0..<n]))" using Suc.prems by (intro Suc.IH) simp
  moreover have "c \<le> length (f n)" using Suc.prems by simp
  ultimately show ?case by simp
qed

lemma chain_fuel: "64 < length (transitions aut_chain)"
proof -
  have "2 * 65 \<le> length (concat (map chain_block [0..<65]))"
    by (rule length_concat_upt) (simp add: chain_block_def)
  then show ?thesis by (simp add: aut_chain_def)
qed

lemma chain_all_layers:
  "epsilon_layers (length (transitions aut_chain)) aut_chain 98 (initialstates aut_chain) =
     map chain_eps [0..<64]"
proof -
  have "epsilon_layers (length (transitions aut_chain)) aut_chain 98 [3 * 0] =
          map chain_eps [0..<64]"
    by (rule chain_layers) (use chain_fuel in simp_all)
  moreover have "initialstates aut_chain = [3 * 0]" by (simp add: aut_chain_def)
  ultimately show ?thesis by simp
qed

lemma chain_depths:
  "get_epsilon_depths (spec_lib 0 id) aut_chain 98 = map (\<lambda>j. (j, chain_eps j)) [0..<64]"
proof -
  have "zip [0..<64] (map chain_eps [0..<64]) = map (\<lambda>j. (j, chain_eps j)) [0..<64]"
    by (simp only: zip_map2 zip_same_conv_map map_map comp_def split_conv)
  then show ?thesis
    by (simp add: spec_lib_def spec_get_epsilon_depths_def chain_all_layers Let_def)
qed

lemma chain_segments:
  "length (get_untrimmed_segments (spec_lib 0 id) aut_chain 98) = 65"
  by (simp add: spec_lib_def spec_get_untrimmed_segments_def chain_all_layers Let_def)

lemma map_of_tabulate:
  "map_of (map (\<lambda>j. (j, f j)) xs) j = (if j \<in> set xs then Some (f j) else None)"
  by (induction xs) auto

lemma chain_depth_trans:
  "j < 64 \<Longrightarrow> depth_trans (map (\<lambda>j. (j, chain_eps j)) [0..<64]) j = chain_eps j"
  by (simp add: depth_trans_def map_of_tabulate)

lemma chain_eps_simps:
  "length (chain_eps j) = 2" "chain_eps j ! 0 = (3 * j + 1, 98, 3 * j + 3)"
  by (simp_all add: chain_eps_def)

lemma prod_list_const: "prod_list (map (\<lambda>j. c) xs) = (c :: nat) ^ length xs"
  by (induction xs) simp_all

lemma chain_weight: "radix_weight (map (\<lambda>j. (j, chain_eps j)) [0..<64]) 64 = 2 ^ 64"
proof -
  have "map (\<lambda>j. length (depth_trans (map (\<lambda>j. (j, chain_eps j)) [0..<64]) j)) [0..<64] =
        map (\<lambda>j. 2) [0..<64]"
    by (rule map_cong) (simp_all add: chain_depth_trans chain_eps_simps)
  then have "radix_weight (map (\<lambda>j. (j, chain_eps j)) [0..<64]) 64 =
        prod_list (map (\<lambda>j. 2 :: nat) [0..<64])"
    by (simp only: radix_weight_def)
  also have "\<dots> = 2 ^ length [0..<64]" by (rule prod_list_const)
  finally show ?thesis by simp
qed

lemma chain_choice:
  "j < 64 \<Longrightarrow> mixed_radix_choice (map (\<lambda>j. (j, chain_eps j)) [0..<64]) 0 j =
     (3 * j + 1, 98, 3 * j + 3)"
  by (simp add: mixed_radix_choice_def chain_depth_trans chain_eps_simps)

text \<open>
  With \<open>include_empty\<close>, every pair of an initial and a final state of a segment is a
  key of the map \<^verbatim>\<open>segments_one_initial_final\<close>, whatever \<^verbatim>\<open>trim\<close> returns.
\<close>

lemma foldl_update_dom:
  "dom (foldl (\<lambda>m x. m(key x \<mapsto> val x)) m xs) = dom m \<union> key ` set xs"
  by (induction xs arbitrary: m) auto

lemma foldl_update2_dom:
  "dom (foldl (\<lambda>m x. foldl (\<lambda>m y. m((x, y) \<mapsto> val x y)) m ys) m xs) =
     dom m \<union> set xs \<times> set ys"
proof (induction xs arbitrary: m)
  case Nil
  show ?case by simp
next
  case (Cons x xs)
  define m1 where "m1 = foldl (\<lambda>m y. m((x, y) \<mapsto> val x y)) m ys"
  have inner: "dom m1 = dom m \<union> Pair x ` set ys"
    unfolding m1_def by (rule foldl_update_dom)
  have "dom (foldl (\<lambda>m x. foldl (\<lambda>m y. m((x, y) \<mapsto> val x y)) m ys) m1 xs) =
          dom m1 \<union> set xs \<times> set ys"
    by (rule Cons.IH)
  then have "dom (foldl (\<lambda>m x. foldl (\<lambda>m y. m((x, y) \<mapsto> val x y)) m ys) m (x # xs)) =
          dom m1 \<union> set xs \<times> set ys"
    by (simp only: foldl_Cons m1_def)
  moreover have "dom m1 \<union> set xs \<times> set ys = dom m \<union> set (x # xs) \<times> set ys"
    unfolding inner by auto
  ultimately show ?case by (simp only:)
qed

lemma segments_dom_Cons:
  "\<exists>m'. segments_one_initial_final lib True u b (seg # rest) m =
          segments_one_initial_final lib True u False rest m'
        \<and> dom m' = dom m \<union>
            (if b then Pair u ` set (finalstates seg)
             else if rest = [] then (\<lambda>i. (i, u)) ` set (initialstates seg)
             else set (initialstates seg) \<times> set (finalstates seg))"
proof -
  define m' where "m' =
    (if b then
       foldl (\<lambda>m final_state. m((u, final_state) \<mapsto> trim lib (seg\<lparr>finalstates := [final_state]\<rparr>)))
         m (finalstates seg)
     else if rest = [] then
       foldl (\<lambda>m init_state. m((init_state, u) \<mapsto> trim lib (seg\<lparr>initialstates := [init_state]\<rparr>)))
         m (initialstates seg)
     else
       foldl (\<lambda>m init_state.
                foldl (\<lambda>m final_state.
                         m((init_state, final_state) \<mapsto>
                             trim lib (seg\<lparr>initialstates := [init_state],
                                           finalstates := [final_state]\<rparr>)))
                      m (finalstates seg))
         m (initialstates seg))"
  have "segments_one_initial_final lib True u b (seg # rest) m =
          segments_one_initial_final lib True u False rest m'"
    by (simp add: m'_def Let_def)
  moreover have "dom m' = dom m \<union>
            (if b then Pair u ` set (finalstates seg)
             else if rest = [] then (\<lambda>i. (i, u)) ` set (initialstates seg)
             else set (initialstates seg) \<times> set (finalstates seg))"
    by (simp add: m'_def foldl_update_dom foldl_update2_dom)
  ultimately show ?thesis by blast
qed

lemma segments_dom_mono:
  "dom m \<subseteq> dom (segments_one_initial_final lib True u b segs m)"
proof (induction segs arbitrary: m b)
  case Nil
  show ?case by simp
next
  case (Cons seg rest)
  obtain m' where m': "segments_one_initial_final lib True u b (seg # rest) m =
          segments_one_initial_final lib True u False rest m'" "dom m \<subseteq> dom m'"
    using segments_dom_Cons[of lib u b seg rest m] by auto
  have "dom m' \<subseteq> dom (segments_one_initial_final lib True u False rest m')"
    by (rule Cons.IH)
  then show ?case using m' by auto
qed

lemma segments_dom_first:
  assumes "f \<in> set (finalstates seg)"
  shows "(u, f) \<in> dom (segments_one_initial_final lib True u True (seg # rest) m)"
proof -
  obtain m' where m': "segments_one_initial_final lib True u True (seg # rest) m =
          segments_one_initial_final lib True u False rest m'" "(u, f) \<in> dom m'"
    using segments_dom_Cons[of lib u True seg rest m] assms by auto
  then show ?thesis using segments_dom_mono[of m' lib u False rest] by auto
qed

lemma segments_dom_middle:
  "i < length segs \<Longrightarrow> Suc i < length segs \<Longrightarrow> (b \<longrightarrow> 0 < i) \<Longrightarrow>
     p \<in> set (initialstates (segs ! i)) \<Longrightarrow> f \<in> set (finalstates (segs ! i)) \<Longrightarrow>
     (p, f) \<in> dom (segments_one_initial_final lib True u b segs m)"
proof (induction segs arbitrary: i b m)
  case Nil
  then show ?case by simp
next
  case (Cons seg rest)
  obtain m' where m': "segments_one_initial_final lib True u b (seg # rest) m =
          segments_one_initial_final lib True u False rest m'"
      "dom m' = dom m \<union>
            (if b then Pair u ` set (finalstates seg)
             else if rest = [] then (\<lambda>i. (i, u)) ` set (initialstates seg)
             else set (initialstates seg) \<times> set (finalstates seg))"
    using segments_dom_Cons[of lib u b seg rest m] by auto
  show ?case
  proof (cases i)
    case 0
    then have "\<not> b" "rest \<noteq> []" using Cons.prems by auto
    then have "(p, f) \<in> dom m'" using m'(2) Cons.prems 0 by simp
    then show ?thesis using m'(1) segments_dom_mono[of m' lib u False rest] by auto
  next
    case (Suc i')
    have "(p, f) \<in> dom (segments_one_initial_final lib True u False rest m')"
      using Cons.prems Suc by (intro Cons.IH[of i']) simp_all
    then show ?thesis using m'(1) by simp
  qed
qed

lemma segments_dom_last:
  "segs \<noteq> [] \<Longrightarrow> (b \<longrightarrow> 1 < length segs) \<Longrightarrow> p \<in> set (initialstates (last segs)) \<Longrightarrow>
     (p, u) \<in> dom (segments_one_initial_final lib True u b segs m)"
proof (induction segs arbitrary: b m)
  case Nil
  then show ?case by simp
next
  case (Cons seg rest)
  obtain m' where m': "segments_one_initial_final lib True u b (seg # rest) m =
          segments_one_initial_final lib True u False rest m'"
      "dom m' = dom m \<union>
            (if b then Pair u ` set (finalstates seg)
             else if rest = [] then (\<lambda>i. (i, u)) ` set (initialstates seg)
             else set (initialstates seg) \<times> set (finalstates seg))"
    using segments_dom_Cons[of lib u b seg rest m] by auto
  show ?case
  proof (cases "rest = []")
    case True
    then have "\<not> b" using Cons.prems by auto
    then have "(p, u) \<in> dom m'" using m'(2) True Cons.prems by simp
    then show ?thesis using m'(1) True by simp
  next
    case False
    have "(p, u) \<in> dom (segments_one_initial_final lib True u False rest m')"
      using Cons.prems False by (intro Cons.IH) simp_all
    then show ?thesis using m'(1) by simp
  qed
qed

lemma segments_between_exists:
  "(\<forall>j. a \<le> j \<and> Suc j < n \<longrightarrow> (tgt (e j), src (e (Suc j))) \<in> dom m) \<Longrightarrow>
     \<exists>segs. segments_between m (map e [a..<n]) = Some segs"
proof (induction "n - a" arbitrary: a)
  case 0
  then show ?case by simp
next
  case (Suc d)
  then have an: "a < n" by simp
  show ?case
  proof (cases "Suc a < n")
    case False
    then have "[a..<n] = [a]" using an by (simp add: upt_conv_Cons)
    then show ?thesis by simp
  next
    case True
    have u: "[a..<n] = a # Suc a # [Suc (Suc a)..<n]"
      using an True by (simp add: upt_conv_Cons)
    have u': "[Suc a..<n] = Suc a # [Suc (Suc a)..<n]" using True by (simp add: upt_conv_Cons)
    obtain s where s: "m (tgt (e a), src (e (Suc a))) = Some s"
      using Suc.prems True by (meson domD le_refl)
    have "d = n - Suc a" using Suc.hyps(2) by simp
    moreover have "\<forall>j. Suc a \<le> j \<and> Suc j < n \<longrightarrow> (tgt (e j), src (e (Suc j))) \<in> dom m"
      using Suc.prems by simp
    ultimately have "\<exists>segs. segments_between m (map e [Suc a..<n]) = Some segs"
      by (rule Suc.hyps(1))
    then obtain segs where segs: "segments_between m (map e [Suc a..<n]) = Some segs" ..
    show ?thesis using s segs unfolding u u' by simp
  qed
qed

lemma chain_segment_list:
  "get_untrimmed_segments (spec_lib 0 id) aut_chain 98 =
     map (\<lambda>j. aut_chain\<lparr>transitions := filter (\<lambda>t. symb t \<noteq> 98) (transitions aut_chain),
                          initialstates := [3 * j], finalstates := [3 * j + 1, 3 * j + 2]\<rparr>)
         [0..<65]"
proof -
  have a0: "initialstates aut_chain # map (\<lambda>es. remdups (map tgt es)) (map chain_eps [0..<64]) =
        map (\<lambda>j. [3 * j]) [0..<65]"
  proof -
    have "[0..<65] = 0 # map Suc [0..<64]" by (simp add: upt_conv_Cons map_Suc_upt)
    then have "map (\<lambda>j. [3 * j]) [0..<65] = [3 * 0] # map (\<lambda>j. [3 * Suc j]) [0..<64]"
      by (simp only: list.map map_map comp_def)
    moreover have "map (\<lambda>es. remdups (map tgt es)) (map chain_eps [0..<64]) =
        map (\<lambda>j. [3 * Suc j]) [0..<64]"
      by (simp add: chain_eps_def tgt_def)
    moreover have "initialstates aut_chain = [3 * 0]" by (simp add: aut_chain_def)
    ultimately show ?thesis by (simp only:)
  qed
  have b0: "map (\<lambda>es. remdups (map src es)) (map chain_eps [0..<64]) @ [finalstates aut_chain] =
        map (\<lambda>j. [3 * j + 1, 3 * j + 2]) [0..<65]"
  proof -
    have "[0..<65] = [0..<64] @ [64]" by (simp add: upt_conv_Cons)
    then have "map (\<lambda>j. [3 * j + 1, 3 * j + 2]) [0..<65] =
        map (\<lambda>j. [3 * j + 1, 3 * j + 2]) [0..<64] @ [[3 * 64 + 1, 3 * 64 + 2]]"
      by (simp only: map_append list.map)
    moreover have "map (\<lambda>es. remdups (map src es)) (map chain_eps [0..<64]) =
        map (\<lambda>j. [3 * j + 1, 3 * j + 2]) [0..<64]"
      by (simp add: chain_eps_def src_def)
    moreover have "finalstates aut_chain = [3 * 64 + 1, 3 * 64 + 2]" by (simp add: aut_chain_def)
    ultimately show ?thesis by (simp only:)
  qed
  have z: "zip (map (\<lambda>j. [3 * j]) [0..<65]) (map (\<lambda>j. [3 * j + 1, 3 * j + 2]) [0..<65]) =
        map (\<lambda>j. ([3 * j], [3 * j + 1, 3 * j + 2])) [0..<65]"
    by (simp only: zip_map_map zip_same_conv_map map_map comp_def split_conv)
  show ?thesis
    unfolding spec_lib_def nfa_lib.simps spec_get_untrimmed_segments_def chain_all_layers Let_def
      a0 b0 z
    by (simp only: map_map comp_def split_conv)
qed

lemma chain_segment_at:
  assumes "i < 65"
  shows "initialstates (get_untrimmed_segments (spec_lib 0 id) aut_chain 98 ! i) = [3 * i]"
    and "finalstates (get_untrimmed_segments (spec_lib 0 id) aut_chain 98 ! i) =
           [3 * i + 1, 3 * i + 2]"
  using assms by (simp_all add: chain_segment_list)

lemma chain_first_noodle:
  "noodle_at
     (segments_one_initial_final (spec_lib 0 id) True 195 True
        (get_untrimmed_segments (spec_lib 0 id) aut_chain 98) Map.empty)
     195 (map (\<lambda>j. (3 * j + 1, 98, 3 * j + 3)) [0..<64]) \<noteq> None"
proof -
  let ?segs = "get_untrimmed_segments (spec_lib 0 id) aut_chain 98"
  let ?m = "segments_one_initial_final (spec_lib 0 id) True 195 True ?segs Map.empty"
  let ?e = "\<lambda>j :: nat. (3 * j + 1, 98 :: nat, 3 * j + 3)"
  have len: "length ?segs = 65" by (rule chain_segments)
  then have cons: "?segs = ?segs ! 0 # tl ?segs"
    by (cases ?segs) simp_all
  have "(195, 1) \<in> dom (segments_one_initial_final (spec_lib 0 id) True 195 True
                          (?segs ! 0 # tl ?segs) Map.empty)"
    by (rule segments_dom_first) (simp add: chain_segment_at)
  then have first: "(195, 1) \<in> dom ?m" using cons by simp
  have middle: "(tgt (?e j), src (?e (Suc j))) \<in> dom ?m" if "Suc j < 64" for j
  proof -
    have "(3 * Suc j, 3 * Suc j + 1) \<in> dom ?m"
      by (rule segments_dom_middle[where i = "Suc j"])
        (use that len in \<open>simp_all add: chain_segment_at\<close>)
    moreover have "(tgt (?e j), src (?e (Suc j))) = (3 * Suc j, 3 * Suc j + 1)"
      by (simp add: tgt_def src_def)
    ultimately show ?thesis by (simp only:)
  qed
  have ne: "?segs \<noteq> []" using len by auto
  have "last ?segs = ?segs ! 64" using last_conv_nth[OF ne] len by simp
  then have "(3 * 64, 195) \<in> dom ?m"
    using len by (intro segments_dom_last) (auto simp add: chain_segment_at)
  then have final: "(192, 195) \<in> dom ?m" by simp
  have "\<forall>j. 0 \<le> j \<and> Suc j < 64 \<longrightarrow> (tgt (?e j), src (?e (Suc j))) \<in> dom ?m"
    using middle by blast
  then obtain between where between: "segments_between ?m (map ?e [0..<64]) = Some between"
    using segments_between_exists[of 0 64 ?e ?m] by blast
  have es: "map ?e [0..<64] = ?e 0 # map ?e [1..<64]" by (simp add: upt_conv_Cons)
  have l: "last (map ?e [0..<64]) = ?e 63" by (simp add: last_map)
  obtain s1 where s1: "?m (195, src (?e 0)) = Some s1" using first by (auto simp add: src_def)
  obtain s2 where s2: "?m (tgt (?e 63), 195) = Some s2" using final by (auto simp add: tgt_def)
  have "noodle_of ?m 195 (map ?e [0..<64]) = Inr (Some (s1 # between @ [s2]))"
    unfolding noodle_of_def between l
    unfolding es list.case s1 s2 option.case
    by (rule refl)
  then show ?thesis by (simp add: noodle_at_def)
qed


text \<open>
  Claim C8 on the code. Let the segmentation of the automaton have at least two
  segments and one list \<open>E d\<close> of epsilon transitions for each depth \<open>d\<close> below \<open>k\<close>, the
  number of segments less one. The number of assignments is the product \<open>|E 0| * ... *
  |E (k - 1)|\<close>. \<^verbatim>\<open>get_num_of_permutations\<close> multiplies in \<^verbatim>\<open>size_t\<close> and returns this
  product modulo \<open>2 ^ 64\<close>, and the loop of noodlify runs over the indices below the
  value returned: for each of them the inner loop computes the epsilon noodle whose
  transition at depth \<open>d\<close> is \<open>E d ! ((i div (|E 0| * ... * |E (d - 1)|)) mod |E d|)\<close>,
  and the result is the list of the noodles of these indices in their order, without
  the indices that have a segment missing. The indices from the product modulo
  \<open>2 ^ 64\<close> up to the product are not enumerated; when the product is below \<open>2 ^ 64\<close>
  there is none.
\<close>

theorem noodlify_enumerates_below_wrapped_product:
  fixes lib aut epsilon include_empty
  defines "eds \<equiv> get_epsilon_depths lib aut epsilon"
  defines "k \<equiv> length (get_epsilon_depths lib aut epsilon)"
  defines "m \<equiv> segments_one_initial_final lib include_empty (num_of_states aut) True
                 (get_untrimmed_segments lib aut epsilon) Map.empty"
  assumes segs: "2 \<le> length (get_untrimmed_segments lib aut epsilon)"
    and depths: "length (get_untrimmed_segments lib aut epsilon) = k + 1"
    and dist: "distinct (map fst eds)"
    and keys: "fst ` set eds = {0..<k}"
  shows "get_num_of_permutations eds = radix_weight eds k mod 2 ^ 64
         \<and> (\<forall>i < radix_weight eds k mod 2 ^ 64.
              epsilon_noodle eds [0..<k] i = Inr (map (mixed_radix_choice eds i) [0..<k]))
         \<and> noodlify lib aut epsilon include_empty =
             Inr (List.map_filter
                    (\<lambda>i. noodle_at m (num_of_states aut) (map (mixed_radix_choice eds i) [0..<k]))
                    [0..<radix_weight eds k mod 2 ^ 64])"
proof -
  have k1: "1 \<le> k" using segs depths by simp
  have kl: "k = length eds" by (simp add: k_def eds_def)
  have ne: "eds \<noteq> []" using k1 kl by auto
  have present: "\<forall>j < k. map_of eds j \<noteq> None"
  proof (intro allI impI)
    fix j assume "j < k"
    then have "j \<in> fst ` set eds" using keys by simp
    then show "map_of eds j \<noteq> None" by (simp add: map_of_eq_None_iff)
  qed
  have decode: "epsilon_noodle eds [0..<k] i = Inr (map (mixed_radix_choice eds i) [0..<k])"
    if "i < radix_weight eds k mod 2 ^ 64" for i
  proof -
    have "radix_weight eds k \<noteq> 0" using that by (cases "radix_weight eds k = 0") simp_all
    then have "\<forall>j < k. length (depth_trans eds j) \<noteq> 0"
      by (auto simp add: radix_weight_def prod_list_zero_iff)
    then have pos: "\<forall>j < k. depth_trans eds j \<noteq> []" by simp
    have "epsilon_noodle eds [0..<k] (i div radix_weight eds 0) =
            Inr (map (mixed_radix_choice eds i) [0..<k])"
      by (rule epsilon_noodle_decode[OF present pos]) simp
    then show ?thesis by (simp add: radix_weight_def)
  qed
  have num: "get_num_of_permutations eds = radix_weight eds k mod 2 ^ 64"
    using ne prod_entries_eq_weight[OF dist keys[unfolded kl]]
    by (simp add: get_num_of_permutations_def foldl_mod_prod kl)
  have nonempty: "map (mixed_radix_choice eds i) [0..<k] \<noteq> []" for i using k1 by simp
  have loop: "noodles_loop m (num_of_states aut) eds [0..<radix_weight eds k mod 2 ^ 64] =
          Inr (List.map_filter
                 (\<lambda>i. noodle_at m (num_of_states aut) (map (mixed_radix_choice eds i) [0..<k]))
                 [0..<radix_weight eds k mod 2 ^ 64])"
    by (rule noodles_loop_map_filter) (use decode nonempty kl in auto)
  have one: "length (get_untrimmed_segments lib aut epsilon) \<noteq> 1" using segs by simp
  have "noodlify lib aut epsilon include_empty =
          noodles_loop m (num_of_states aut) eds [0..<radix_weight eds k mod 2 ^ 64]"
    using one num by (simp add: noodlify_def Let_def eds_def m_def)
  then show ?thesis using decode loop num by simp
qed

text \<open>
  Claim C8 at the chain automaton. Its 64 epsilon depths have two transitions each, so
  there are \<open>2 ^ 64\<close> assignments. The product wraps to 0: the loop of noodlify runs over
  no index and returns the empty NoodleSequence, although the assignment of index 0
  (the first transition of every depth) has all its segments in the map and makes a
  noodle.
\<close>

theorem noodlify_enumerates_below_wrapped_product_witness:
  "radix_weight (get_epsilon_depths (spec_lib 0 id) aut_chain 98) 64 = 2 ^ 64
   \<and> get_num_of_permutations (get_epsilon_depths (spec_lib 0 id) aut_chain 98) = 0
   \<and> noodlify (spec_lib 0 id) aut_chain 98 True = Inr []
   \<and> noodle_at
        (segments_one_initial_final (spec_lib 0 id) True 195 True
           (get_untrimmed_segments (spec_lib 0 id) aut_chain 98) Map.empty)
        195
        (map (mixed_radix_choice (get_epsilon_depths (spec_lib 0 id) aut_chain 98) 0) [0..<64])
      \<noteq> None"
proof -
  let ?L = "spec_lib 0 id"
  let ?eds = "get_epsilon_depths ?L aut_chain 98"
  let ?segs = "get_untrimmed_segments ?L aut_chain 98"
  have k: "length ?eds = 64" by (simp add: chain_depths)
  have n: "num_of_states aut_chain = 195" by (simp add: aut_chain_def)
  have w: "radix_weight ?eds 64 = 2 ^ 64" unfolding chain_depths by (rule chain_weight)
  have h1: "2 \<le> length ?segs" by (simp add: chain_segments)
  have h2: "length ?segs = length ?eds + 1" by (simp add: chain_segments k)
  have h3: "distinct (map fst ?eds)" by (simp add: chain_depths comp_def)
  have h4: "fst ` set ?eds = {0..<length ?eds}" unfolding k
    by (simp add: chain_depths image_image)
  note T = noodlify_enumerates_below_wrapped_product[OF h1 h2 h3 h4, unfolded k w n]
  have num: "get_num_of_permutations ?eds = 0" using T[of True] by simp
  have res: "noodlify ?L aut_chain 98 True = Inr []"
    using T[of True] by simp
  have c: "map (mixed_radix_choice ?eds 0) [0..<64] =
             map (\<lambda>j. (3 * j + 1, 98, 3 * j + 3)) [0..<64]"
    unfolding chain_depths by (rule map_cong) (simp_all add: chain_choice)
  have nd: "noodle_at (segments_one_initial_final ?L True 195 True ?segs Map.empty) 195
          (map (mixed_radix_choice ?eds 0) [0..<64]) \<noteq> None"
    unfolding c by (rule chain_first_noodle)
  show ?thesis using w num res nd by blast
qed
subsection \<open>C4: what a call does to its input automata\<close>

lemma unify_all_count:
  "unify_all lib h as a =
     ((\<lambda>A. unify_final lib (unify_initial lib A)) ^^ count_list as a) (h a)"
proof (induction as arbitrary: h)
  case Nil
  then show ?case by simp
next
  case (Cons b as)
  define f where "f = (\<lambda>A. unify_final lib (unify_initial lib A))"
  define g where "g = h(b := f (h b))"
  have step: "unify_all lib h (b # as) a = unify_all lib g as a"
    by (simp add: g_def f_def)
  have IH: "unify_all lib g as a = (f ^^ count_list as a) (g a)"
    unfolding f_def by (rule Cons.IH)
  show ?case
  proof (cases "a = b")
    case True
    have "(f ^^ count_list as a) (f (h a)) = (f ^^ Suc (count_list as a)) (h a)"
      by (simp add: funpow_swap1)
    then show ?thesis using True step IH by (simp add: g_def f_def)
  next
    case False
    then show ?thesis using step IH by (simp add: g_def f_def)
  qed
qed

text \<open>
  Claim C4, as amended. A call of the overload for references rewrites its left
  automata in place: after the call the automaton at an address is the one before the
  call with \<open>unify_final (unify_initial _)\<close> applied to it once for each occurrence of
  the address on the left side. This holds on every path, the early returns included,
  and for every \<open>params\<close>. An automaton that is not on the left side, the right one too
  unless it is also a left one, keeps its value under both overloads. The
  NoodleSequence returned depends only on the automata passed: two runs from heaps that
  agree on the left and right automata return equal NoodleSequences.
\<close>

theorem noodlify_for_equation_rewrites_left_automata:
  "(\<forall>a. fst (noodlify_for_equation lib h ls r include_empty params) a =
          ((\<lambda>A. unify_final lib (unify_initial lib A)) ^^ count_list ls a) (h a))
   \<and> (\<forall>a. a \<notin> set ls \<longrightarrow>
          fst (noodlify_for_equation lib h ls r include_empty params) a = h a
          \<and> fst (noodlify_for_equation_ptr lib h ls r include_empty params) a = h a)
   \<and> ((\<forall>a \<in> set ls \<union> {r}. h a = h' a) \<longrightarrow>
        snd (noodlify_for_equation lib h ls r include_empty params) =
          snd (noodlify_for_equation lib h' ls r include_empty params)
        \<and> snd (noodlify_for_equation_ptr lib h ls r include_empty params) =
          snd (noodlify_for_equation_ptr lib h' ls r include_empty params))"
proof -
  have agree: "map (unify_all lib h ls) ls = map (unify_all lib h' ls) ls
               \<and> unify_all lib h ls r = unify_all lib h' ls r
               \<and> map h ls = map h' ls \<and> h r = h' r"
    if eq: "\<forall>a \<in> set ls \<union> {r}. h a = h' a"
  proof -
    have on_ls: "\<forall>a \<in> set ls. h a = h' a" using eq by simp
    have "unify_all lib h ls b = unify_all lib h' ls b" if "b \<in> set ls" for b
      using unify_all_cong[OF on_ls that] .
    moreover have "unify_all lib h ls r = unify_all lib h' ls r"
    proof (cases "r \<in> set ls")
      case True
      then show ?thesis using unify_all_cong[OF on_ls] by simp
    next
      case False
      then show ?thesis using eq by (simp add: unify_all_other)
    qed
    ultimately show ?thesis using eq by simp
  qed
  have det: "snd (noodlify_for_equation lib h ls r include_empty params) =
          snd (noodlify_for_equation lib h' ls r include_empty params)
        \<and> snd (noodlify_for_equation_ptr lib h ls r include_empty params) =
          snd (noodlify_for_equation_ptr lib h' ls r include_empty params)"
    if eq: "\<forall>a \<in> set ls \<union> {r}. h a = h' a"
  proof -
    note a = agree[OF eq]
    have 1: "equation_result lib (unify_all lib h ls) ls r include_empty params =
             equation_result lib (unify_all lib h' ls) ls r include_empty params"
      using a by (intro equation_result_cong) simp_all
    have 2: "equation_result lib h ls r include_empty params =
             equation_result lib h' ls r include_empty params"
      using a by (intro equation_result_cong) simp_all
    show ?thesis
      unfolding noodlify_for_equation_steps noodlify_for_equation_ptr_steps
      using 1 2 by simp
  qed
  have ref: "fst (noodlify_for_equation lib h ls r include_empty params) a =
          ((\<lambda>A. unify_final lib (unify_initial lib A)) ^^ count_list ls a) (h a)" for a
    unfolding noodlify_for_equation_steps fst_conv by (rule unify_all_count)
  have frame: "fst (noodlify_for_equation lib h ls r include_empty params) a = h a
          \<and> fst (noodlify_for_equation_ptr lib h ls r include_empty params) a = h a"
    if "a \<notin> set ls" for a
    using that
    by (simp add: noodlify_for_equation_steps noodlify_for_equation_ptr_steps unify_all_other)
  show ?thesis using ref frame det by blast
qed

theorem noodlify_for_equation_rewrites_left_automata_witness:
  "fst (noodlify_for_equation (spec_lib 0 id) example_heap [5, 5] 0 False Map.empty) 5
     = spec_unify_final 0 (spec_unify_initial 0
         (spec_unify_final 0 (spec_unify_initial 0 aut_two_initial)))
   \<and> fst (noodlify_for_equation (spec_lib 0 id) example_heap [5, 5] 0 False Map.empty) 2
     = aut_ab
   \<and> fst (noodlify_for_equation_ptr (spec_lib 0 id) example_heap [5, 5] 0 False Map.empty) 2
     = aut_ab
   \<and> snd (noodlify_for_equation (spec_lib 0 id) example_heap [5, 5] 0 False Map.empty)
     = snd (noodlify_for_equation (spec_lib 0 id) (example_heap(7 := aut_a)) [5, 5] 0 False
              Map.empty)"
proof -
  let ?L = "spec_lib 0 id"
  note T = noodlify_for_equation_rewrites_left_automata
             [of ?L example_heap "[5, 5]" 0 False Map.empty "example_heap(7 := aut_a)"]
  have c: "count_list [5, 5] (5 :: nat) = Suc (Suc 0)" by simp
  have u5: "fst (noodlify_for_equation ?L example_heap [5, 5] 0 False Map.empty) 5
     = ((\<lambda>A. unify_final ?L (unify_initial ?L A)) ^^ count_list [5, 5] (5 :: nat)) (example_heap 5)"
    using T by blast
  have n2: "(2 :: nat) \<notin> set [5, 5]" by simp
  have u2: "fst (noodlify_for_equation ?L example_heap [5, 5] 0 False Map.empty) 2
              = example_heap 2
            \<and> fst (noodlify_for_equation_ptr ?L example_heap [5, 5] 0 False Map.empty) 2
              = example_heap 2"
    using T n2 by blast
  have eq: "\<forall>a \<in> set [5, 5] \<union> {0}. example_heap a = (example_heap(7 := aut_a)) a"
    by simp
  have s: "snd (noodlify_for_equation ?L example_heap [5, 5] 0 False Map.empty)
     = snd (noodlify_for_equation ?L (example_heap(7 := aut_a)) [5, 5] 0 False Map.empty)"
    using T eq by blast
  have u5': "fst (noodlify_for_equation ?L example_heap [5, 5] 0 False Map.empty) 5
     = spec_unify_final 0 (spec_unify_initial 0
         (spec_unify_final 0 (spec_unify_initial 0 aut_two_initial)))"
    unfolding u5 c by (simp add: example_heap_simps spec_lib_def)
  show ?thesis using u5' u2 s by (simp add: example_heap_simps)
qed

text \<open>
  Claim C4, as stated, fails: the left side is one automaton with the two initial states
  0 and 1, the right automaton has the empty language. The call of the overload for
  references returns early with the empty NoodleSequence, and the left automaton is not
  what it was before the call (it has one initial state now).
\<close>

theorem noodlify_for_equation_purity_counterexample:
  "snd (noodlify_for_equation (spec_lib 0 id) example_heap [5] 4 False Map.empty) = Inr []
   \<and> fst (noodlify_for_equation (spec_lib 0 id) example_heap [5] 4 False Map.empty) 5
       \<noteq> example_heap 5"
proof -
  let ?L = "spec_lib 0 id"
  have e: "is_lang_empty ?L aut_none"
    by (simp add: nfa_eval automata_eval funpow_unfold cong: weak_congs)
  have r: "snd (noodlify_for_equation ?L example_heap [5] 4 False Map.empty) = Inr []"
    using e by (simp add: noodlify_for_equation_steps equation_result_def example_heap_simps)
  have "initialstates
          (fst (noodlify_for_equation ?L example_heap [5] 4 False Map.empty) 5) = [3]"
    by (simp add: noodlify_for_equation_steps example_heap_simps spec_lib_def
        spec_unify_initial_def spec_unify_final_def aut_two_initial_def)
  moreover have "initialstates (example_heap 5) = [0, 1]"
    by (simp add: example_heap_simps aut_two_initial_def)
  ultimately have "fst (noodlify_for_equation ?L example_heap [5] 4 False Map.empty) 5
          \<noteq> example_heap 5"
    by auto
  then show ?thesis using r by simp
qed
subsection \<open>C3 and C10: the overload for pointers unifies only when it reduces\<close>

text \<open>
  For every library: without a recognised value of \<open>params["reduce"]\<close> the overload for
  pointers leaves the left automata as they are and runs the pipeline on them, while
  the overload for references unifies them first.
\<close>

lemma pointer_overload_without_reduce:
  "\<not> ptr_unifies params \<Longrightarrow>
     noodlify_for_equation_ptr lib h ls r include_empty params =
       (h, equation_result lib h ls r include_empty params)"
  by (simp add: noodlify_for_equation_ptr_steps)

text \<open>
  Claim C3 at the failing input: the left side is one automaton with the two initial
  states 0 and 1, and \<open>params\<close> is empty. After the call of the overload for pointers
  the automaton is unchanged and still has both initial states; after the call of the
  overload for references it has the one fresh initial state 3.
\<close>

theorem pointer_overload_leaves_initial_states:
  "fst (noodlify_for_equation_ptr (spec_lib 0 id) example_heap [5] 0 False Map.empty) 5
     = aut_two_initial
   \<and> initialstates aut_two_initial = [0, 1]
   \<and> initialstates
        (fst (noodlify_for_equation (spec_lib 0 id) example_heap [5] 0 False Map.empty) 5)
     = [3]"
  by (simp add: noodlify_for_equation_steps noodlify_for_equation_ptr_steps ptr_unifies_def
      example_heap_simps spec_lib_def spec_unify_initial_def spec_unify_final_def
      aut_two_initial_def)

text \<open>
  Claim C10 at the same input, with the right automaton for the word \<open>a\<close>: the two
  overloads return different NoodleSequences. The overload for pointers works on the
  automaton as it is and returns one noodle; the overload for references works on the
  unified automaton, whose added edges (as the spec describes the unification) are not
  matched by the right automaton, and returns none.
\<close>

theorem overloads_return_different_sequences:
  "snd (noodlify_for_equation_ptr (spec_lib 0 id) example_heap [5] 0 False Map.empty)
     = Inr [[aut_two_initial]]
   \<and> snd (noodlify_for_equation (spec_lib 0 id) example_heap [5] 0 False Map.empty)
     = Inr []"
proof -
  let ?L = "spec_lib 0 id"
  let ?u = "spec_unify_final 0 (spec_unify_initial 0 aut_two_initial)"
  have n: "\<not> is_lang_empty ?L aut_a"
    by (simp add: nfa_eval automata_eval funpow_unfold upt_unfold cong: weak_congs)
  have p: "product_pres_eps_trans ?L [aut_two_initial] aut_a = aut_two_initial"
    by (simp add: nfa_eval automata_eval funpow_unfold upt_unfold cong: weak_congs)
  have np: "\<not> is_lang_empty ?L aut_two_initial"
    by (simp add: nfa_eval automata_eval funpow_unfold upt_unfold cong: weak_congs)
  have e: "equation_epsilon ?L [aut_two_initial] aut_a = 98"
    by (simp add: nfa_eval automata_eval cong: weak_congs)
  have nd: "noodlify ?L aut_two_initial 98 False = Inr [[aut_two_initial]]"
    by (simp add: noodlify_def nfa_eval automata_eval funpow_unfold upt_unfold
        epsilon_layers.simps cong: weak_congs)
  have ptr: "snd (noodlify_for_equation_ptr ?L example_heap [5] 0 False Map.empty)
     = Inr [[aut_two_initial]]"
    using n np
    by (simp add: noodlify_for_equation_ptr_steps ptr_unifies_def equation_result_def
        example_heap_simps p e nd reduce_by_params_def)
  have h: "unify_final ?L (unify_initial ?L aut_two_initial) = ?u"
    by (simp add: spec_lib_def)
  have pe: "is_lang_empty ?L (product_pres_eps_trans ?L [?u] aut_a)"
    by (simp add: nfa_eval automata_eval funpow_unfold upt_unfold cong: weak_congs)
  have ref: "snd (noodlify_for_equation ?L example_heap [5] 0 False Map.empty) = Inr []"
    using n pe
    by (simp add: noodlify_for_equation_steps equation_result_def h example_heap_simps)
  show ?thesis using ptr ref by simp
qed

section \<open>Properties of re2parser.cc\<close>

subsection \<open>Evaluating the conversion\<close>










subsection \<open>Loops that may fail\<close>




subsection \<open>The primitive edits keep an automaton dense\<close>







subsection \<open>renumber_states writes a dense automaton\<close>










end
